theory Spec2Isabelle
  imports Complex_Main
begin

section \<open>Conflict detection engine (lib/conflicts): text utilities\<close>

text \<open>
  JavaScript strings are modelled as \<open>string\<close> over ASCII characters, a \<^verbatim>\<open>Set\<close> as the list of
  its elements in insertion order. JavaScript numbers are modelled as rationals: the engine
  computes its scores in IEEE doubles, so a sum of several weights can differ from the
  model's value in the last bit (0.3 + 0.15 is 0.44999999999999996 in the engine), and a
  comparison of such a sum with a threshold it meets exactly can come out differently. The
  statements below say which operations are performed and bound their results; none of them
  rests on the exact value of a sum of weights.
\<close>

subsection \<open>Characters\<close>

definition is_upper :: "char \<Rightarrow> bool" where
  "is_upper c = (let n = (of_char c :: nat) in 65 \<le> n \<and> n \<le> 90)"

definition is_lower :: "char \<Rightarrow> bool" where
  "is_lower c = (let n = (of_char c :: nat) in 97 \<le> n \<and> n \<le> 122)"

definition is_digit :: "char \<Rightarrow> bool" where
  "is_digit c = (let n = (of_char c :: nat) in 48 \<le> n \<and> n \<le> 57)"

text \<open>The class \<^verbatim>\<open>\w\<close> is \<^verbatim>\<open>[A-Za-z0-9_]\<close>; \<^verbatim>\<open>\s\<close> is tab, line feed, vertical tab,
  form feed, carriage return and space.\<close>

definition is_word :: "char \<Rightarrow> bool" where
  "is_word c = (is_upper c \<or> is_lower c \<or> is_digit c \<or> c = CHR ''_'')"

definition is_space :: "char \<Rightarrow> bool" where
  "is_space c = (let n = (of_char c :: nat) in (9 \<le> n \<and> n \<le> 13) \<or> n = 32)"

definition toLowerChar :: "char \<Rightarrow> char" where
  "toLowerChar c = (if is_upper c then char_of (of_char c + (32::nat)) else c)"

definition toLowerCase :: "string \<Rightarrow> string" where
  "toLowerCase s = map toLowerChar s"

subsection \<open>Constants\<close>

definition NEGATION_WORDS :: "string list" where
  "NEGATION_WORDS =
    [''don'' @ [CHR 0x27] @ ''t'', ''avoid'', ''instead'', ''rather than'', ''not'', ''never'', ''stop'',
     ''switch from'', ''migrate from'', ''replace'', ''drop'', ''remove'', ''abandon'',
     ''actually'', ''changed'', ''reconsidered'', ''on second thought'', ''turns out'',
     ''better alternative'', ''worse than expected'', ''doesn'' @ [CHR 0x27] @ ''t work'', ''failed'']"

definition CONTRADICTORY_ADJECTIVE_PAIRS :: "(string \<times> string) list" where
  "CONTRADICTORY_ADJECTIVE_PAIRS =
    [(''fast'', ''slow''),
     (''simple'', ''complex''),
     (''easy'', ''difficult''),
     (''lightweight'', ''heavy''),
     (''lightweight'', ''bloated''),
     (''secure'', ''insecure''),
     (''scalable'', ''unscalable''),
     (''reliable'', ''unreliable''),
     (''stable'', ''unstable''),
     (''performant'', ''slow''),
     (''modern'', ''outdated''),
     (''recommended'', ''deprecated''),
     (''good'', ''bad''),
     (''best'', ''worst''),
     (''better'', ''worse''),
     (''efficient'', ''inefficient''),
     (''clean'', ''messy''),
     (''maintainable'', ''unmaintainable''),
     (''readable'', ''unreadable''),
     (''flexible'', ''rigid''),
     (''mature'', ''immature'')]"

definition TEMPORAL_OVERRIDE_PHRASES :: "string list" where
  "TEMPORAL_OVERRIDE_PHRASES =
    [''actually'', ''changed my mind'', ''on second thought'', ''after testing'',
     ''after trying'', ''after further review'', ''after more research'',
     ''i was wrong'', ''turns out'', ''in hindsight'', ''reconsidered'',
     ''updated my thinking'', ''revised my approach'', ''new approach'',
     ''better approach'', ''going forward'', ''instead we should'', ''no longer'',
     ''decided against'', ''backed off from'', ''moved away from'',
     ''pivoted to'', ''pivoting to'', ''switching to'']"

definition STOPWORDS :: "string list" where
  "STOPWORDS =
    [''a'', ''an'', ''the'', ''and'', ''or'', ''but'', ''in'', ''on'', ''at'', ''to'', ''for'',
     ''of'', ''with'', ''by'', ''from'', ''is'', ''it'', ''as'', ''be'', ''was'', ''were'',
     ''been'', ''are'', ''am'', ''do'', ''does'', ''did'', ''has'', ''had'', ''have'', ''will'',
     ''would'', ''could'', ''should'', ''may'', ''might'', ''can'', ''shall'', ''not'', ''no'',
     ''this'', ''that'', ''these'', ''those'', ''i'', ''you'', ''he'', ''she'', ''we'', ''they'',
     ''me'', ''him'', ''her'', ''us'', ''them'', ''my'', ''your'', ''his'', ''its'', ''our'',
     ''their'', ''what'', ''which'', ''who'', ''whom'', ''how'', ''when'', ''where'', ''why'',
     ''if'', ''then'', ''else'', ''so'', ''up'', ''out'', ''about'', ''into'', ''over'',
     ''after'', ''before'', ''between'', ''under'', ''again'', ''just'', ''also'', ''than'',
     ''very'', ''too'', ''some'', ''any'', ''all'', ''each'', ''every'', ''both'', ''few'',
     ''more'', ''most'', ''other'', ''such'', ''only'', ''same'', ''here'', ''there'',
     ''now'', ''then'', ''once'', ''still'', ''already'', ''much'', ''many'', ''well'',
     ''back'', ''even'', ''new'', ''way'', ''use'', ''like'', ''get'', ''make'', ''go'',
     ''know'', ''take'', ''see'', ''come'', ''think'', ''look'', ''want'', ''give'', ''need'',
     ''tell'', ''say'', ''try'', ''ask'', ''work'', ''seem'', ''feel'', ''let'', ''keep'',
     ''help'', ''show'', ''put'', ''set'', ''run'', ''move'', ''play'', ''turn'', ''being'',
     ''thing'', ''things'', ''really'', ''using'', ''used'', ''one'', ''two'', ''first'',
     ''last'', ''long'', ''great'', ''little'', ''own'', ''old'', ''right'', ''while'',
     ''able'', ''done'', ''going'', ''something'', ''anything'', ''everything'', ''nothing'']"

definition HEURISTIC_SCORE_THRESHOLD :: rat where
  "HEURISTIC_SCORE_THRESHOLD = 0.3"

definition AI_CONFIDENCE_THRESHOLD :: rat where
  "AI_CONFIDENCE_THRESHOLD = 0.6"

definition MAX_CONCURRENT_AI_REQUESTS :: nat where
  "MAX_CONCURRENT_AI_REQUESTS = 5"

subsection \<open>tokenize\<close>

text \<open>\<^verbatim>\<open>text.replace(/([a-z])([A-Z])/g, '$1 $2')\<close>: a space goes between a lower-case letter
  and the upper-case letter that follows it.\<close>

fun splitCamel :: "string \<Rightarrow> string" where
  "splitCamel (a # b # cs) =
     (if is_lower a \<and> is_upper b then a # CHR '' '' # splitCamel (b # cs)
      else a # splitCamel (b # cs))"
| "splitCamel cs = cs"

text \<open>\<^verbatim>\<open>.replace(/[^a-z0-9\-]/g, ' ')\<close>\<close>

definition stripPunctuation :: "string \<Rightarrow> string" where
  "stripPunctuation s =
     map (\<lambda>c. if is_lower c \<or> is_digit c \<or> c = CHR ''-'' then c else CHR '' '') s"

text \<open>\<^verbatim>\<open>.split(/[\s\-]+/)\<close>: the pieces between maximal runs of separators; a leading or
  trailing run leaves an empty piece, as in JavaScript.\<close>

definition is_sep :: "char \<Rightarrow> bool" where
  "is_sep c = (is_space c \<or> c = CHR ''-'')"

fun splitWords :: "bool \<Rightarrow> string \<Rightarrow> string \<Rightarrow> string list" where
  "splitWords insep cur [] = [cur]"
| "splitWords insep cur (c # cs) =
     (if is_sep c then
        (if insep then splitWords True cur cs else cur # splitWords True [] cs)
      else splitWords False (cur @ [c]) cs)"

text \<open>\<^verbatim>\<open>[...new Set(words)]\<close>: the first occurrence of each element, in order.\<close>

fun uniq :: "'a list \<Rightarrow> 'a list \<Rightarrow> 'a list" where
  "uniq seen [] = []"
| "uniq seen (x # xs) = (if x \<in> set seen then uniq seen xs else x # uniq (x # seen) xs)"

definition newSet :: "'a list \<Rightarrow> 'a list" where
  "newSet xs = uniq [] xs"

definition tokenize :: "string \<Rightarrow> string list" where
  "tokenize text =
     (if text = [] then []
      else
        let expanded = splitCamel text;
            words = filter (\<lambda>w. length w \<ge> 2 \<and> w \<notin> set STOPWORDS)
                      (splitWords False [] (stripPunctuation (toLowerCase expanded)))
        in newSet words)"

subsection \<open>jaccardSimilarity, tagOverlap\<close>

definition jaccardSimilarity :: "'a list \<Rightarrow> 'a list \<Rightarrow> rat" where
  "jaccardSimilarity setA setB =
     (if length setA = 0 \<and> length setB = 0 then 0
      else
        let intersection = length (filter (\<lambda>item. item \<in> set setB) setA);
            union = int (length setA) + int (length setB) - int intersection
        in if union = 0 then 0 else of_nat intersection / of_int union)"

definition tagOverlap :: "string list \<Rightarrow> string list \<Rightarrow> rat" where
  "tagOverlap tagsA tagsB =
     (if length tagsA = 0 \<or> length tagsB = 0 then 0
      else
        let setA = newSet (map toLowerCase tagsA);
            setB = newSet (map toLowerCase tagsB);
            intersection = length (filter (\<lambda>tag. tag \<in> set setB) setA);
            minSize = min (length setA) (length setB)
        in if minSize = 0 then 0 else of_nat intersection / of_nat minSize)"

subsection \<open>findMatchingPhrases\<close>

fun startsWith :: "string \<Rightarrow> string \<Rightarrow> bool" where
  "startsWith s [] = True"
| "startsWith [] (p # ps) = False"
| "startsWith (c # cs) (p # ps) = (c = p \<and> startsWith cs ps)"

text \<open>\<^verbatim>\<open>hay.includes(needle)\<close>\<close>

fun strIncludes :: "string \<Rightarrow> string \<Rightarrow> bool" where
  "strIncludes [] needle = (needle = [])"
| "strIncludes (c # cs) needle = (startsWith (c # cs) needle \<or> strIncludes cs needle)"

definition findMatchingPhrases :: "string \<Rightarrow> string list \<Rightarrow> string list" where
  "findMatchingPhrases text phrases =
     (if text = [] then []
      else let lower = toLowerCase text
           in filter (\<lambda>phrase. strIncludes lower (toLowerCase phrase)) phrases)"

subsection \<open>Regular expressions of the pattern library\<close>

text \<open>
  The four technology-switch patterns use literals (case-insensitive, flag \<^verbatim>\<open>i\<close>),
  \<^verbatim>\<open>\s+\<close>, capture groups \<^verbatim>\<open>(\w+)\<close>, optional non-capturing groups and alternatives.
  \<open>rmatch\<close> lists the ways a pattern matches at the start of a string, in the order a
  backtracking matcher tries them (greedy quantifiers: longest first); the head of the
  list is the match JavaScript reports.
\<close>

datatype re =
    Lit string
  | Spaces
  | Group nat
  | Opt re
  | Alt re re
  | Seq re re

fun startsWithCI :: "string \<Rightarrow> string \<Rightarrow> bool" where
  "startsWithCI s [] = True"
| "startsWithCI [] (p # ps) = False"
| "startsWithCI (c # cs) (p # ps) = (toLowerChar c = toLowerChar p \<and> startsWithCI cs ps)"

fun classPlus :: "(char \<Rightarrow> bool) \<Rightarrow> string \<Rightarrow> string \<Rightarrow> (string \<times> string) list" where
  "classPlus P acc [] = []"
| "classPlus P acc (c # cs) =
     (if P c then classPlus P (acc @ [c]) cs @ [(acc @ [c], cs)] else [])"

type_synonym captures = "(nat \<times> string) list"

fun rmatch :: "re \<Rightarrow> string \<Rightarrow> captures \<Rightarrow> (string \<times> captures) list" where
  "rmatch (Lit l) s caps = (if startsWithCI s l then [(drop (length l) s, caps)] else [])"
| "rmatch Spaces s caps = map (\<lambda>mr. (snd mr, caps)) (classPlus is_space [] s)"
| "rmatch (Group k) s caps = map (\<lambda>mr. (snd mr, caps @ [(k, fst mr)])) (classPlus is_word [] s)"
| "rmatch (Opt r) s caps = rmatch r s caps @ [(s, caps)]"
| "rmatch (Alt a b) s caps = rmatch a s caps @ rmatch b s caps"
| "rmatch (Seq a b) s caps = concat (map (\<lambda>rc. rmatch b (fst rc) (snd rc)) (rmatch a s caps))"

text \<open>\<^verbatim>\<open>text.match(pattern)\<close> without the flag \<^verbatim>\<open>g\<close>: the match at the leftmost position
  that has one, as (matched text, captures); \<open>None\<close> is JavaScript's \<^verbatim>\<open>null\<close>.\<close>

definition matchHere :: "re \<Rightarrow> string \<Rightarrow> (string \<times> captures) option" where
  "matchHere r s =
     (case rmatch r s [] of
        [] \<Rightarrow> None
      | rc # _ \<Rightarrow> Some (take (length s - length (fst rc)) s, snd rc))"

fun strMatch :: "string \<Rightarrow> re \<Rightarrow> (string \<times> captures) option" where
  "strMatch [] r = matchHere r []"
| "strMatch (c # cs) r =
     (case matchHere r (c # cs) of
        Some m \<Rightarrow> Some m
      | None \<Rightarrow> strMatch cs r)"

fun seqs :: "re list \<Rightarrow> re" where
  "seqs [] = Lit []"
| "seqs [r] = r"
| "seqs (r # rs) = Seq r (seqs rs)"

definition TECH_SWITCH_PATTERNS :: "re list" where
  "TECH_SWITCH_PATTERNS =
    [seqs [Lit ''switch'', Opt (Alt (Lit ''ed'') (Lit ''ing'')), Spaces,
           Opt (Seq (Lit ''from'') Spaces), Group 1, Spaces, Lit ''to'', Spaces, Group 2],
     seqs [Lit ''migrat'', Alt (Lit ''e'') (Alt (Lit ''ed'') (Lit ''ing'')), Spaces,
           Opt (Seq (Lit ''from'') Spaces), Group 1, Spaces, Lit ''to'', Spaces, Group 2],
     seqs [Lit ''replac'', Alt (Lit ''e'') (Alt (Lit ''ed'') (Lit ''ing'')), Spaces,
           Group 1, Spaces, Lit ''with'', Spaces, Group 2],
     seqs [Group 1, Spaces, Alt (Lit ''is'') (Lit ''was''), Spaces, Lit ''better'', Spaces,
           Lit ''than'', Spaces, Group 2]]"

subsection \<open>detectTechSwitches, findContradictoryAdjectives\<close>

record techSwitch =
  sw_from :: string
  sw_to :: string
  sw_pattern :: string

definition capture :: "captures \<Rightarrow> nat \<Rightarrow> string" where
  "capture caps k = (case map_of caps k of Some m \<Rightarrow> m | None \<Rightarrow> [])"

definition detectTechSwitches :: "string \<Rightarrow> techSwitch list" where
  "detectTechSwitches text =
     (if text = [] then []
      else concat (map (\<lambda>pattern.
             case strMatch text pattern of
               None \<Rightarrow> []
             | Some m \<Rightarrow> [\<lparr>sw_from = toLowerCase (capture (snd m) 1),
                           sw_to = toLowerCase (capture (snd m) 2),
                           sw_pattern = fst m\<rparr>])
           TECH_SWITCH_PATTERNS))"

definition findContradictoryAdjectives :: "string \<Rightarrow> string \<Rightarrow> (string \<times> string) list" where
  "findContradictoryAdjectives textA textB =
     (if textA = [] \<or> textB = [] then []
      else
        let lowerA = toLowerCase textA; lowerB = toLowerCase textB
        in map (\<lambda>(adj1, adj2).
                  (if strIncludes lowerA adj1 then adj1 else adj2,
                   if strIncludes lowerB adj1 then adj1 else adj2))
             (filter (\<lambda>(adj1, adj2).
                        (strIncludes lowerA adj1 \<and> strIncludes lowerB adj2) \<or>
                        (strIncludes lowerA adj2 \<and> strIncludes lowerB adj1))
                CONTRADICTORY_ADJECTIVE_PAIRS))"

section \<open>Knowledge records and the pairwise matcher\<close>

text \<open>
  A summary record as the engine reads it (\<open>sid\<close> is its \<^verbatim>\<open>id\<close>, \<open>summaryText\<close> its
  \<^verbatim>\<open>summary\<close> field). \<open>createdAt\<close> holds the value of
  \<^verbatim>\<open>new Date(s.createdAt).getTime()\<close>: epoch milliseconds, \<open>None\<close> for \<^verbatim>\<open>NaN\<close> (a missing
  or unparseable date). \<open>topicId = None\<close> is a missing or \<^verbatim>\<open>null\<close> topic.
\<close>

record summary =
  sid :: string
  topicId :: "string option"
  title :: string
  summaryText :: string
  decisions :: "string list"
  keyInsights :: "string list"
  tags :: "string list"
  createdAt :: "int option"

record topic =
  tid :: string
  ttags :: "string list"

datatype contentType = Decision | Insight | SummaryLevel

record finding =
  f_olderContent :: string
  f_newerContent :: string
  f_olderContentType :: contentType
  f_newerContentType :: contentType
  f_signals :: "string list"
  score :: rat

fun join :: "string \<Rightarrow> string list \<Rightarrow> string" where
  "join sep [] = []"
| "join sep [x] = x"
| "join sep (x # xs) = x @ sep @ join sep xs"

definition dq :: string where
  "dq = [CHR 0x22]"

definition extractKeywords :: "'a summary_scheme \<Rightarrow> string list" where
  "extractKeywords s =
     newSet (concat (map tokenize ([title s] @ decisions s @ keyInsights s @ tags s)))"

text \<open>
  The body of the inner loop of \<^verbatim>\<open>compareDecisions\<close>, for one older item (with its
  token set) and one newer item. \<open>pairSignals\<close> is steps 2 to 6: the local variables
  \<^verbatim>\<open>signals\<close> and \<^verbatim>\<open>score\<close> after each block, numbered in the order of the source.
\<close>

definition pairSignals :: "string \<Rightarrow> string list \<Rightarrow> string \<Rightarrow> string list \<Rightarrow> rat \<Rightarrow> string list \<times> rat" where
  "pairSignals olderText olderTokens newerText newerTokens overlap =
     (let sharedTokens = filter (\<lambda>t. t \<in> set newerTokens) olderTokens;
          signals0 = [];
          score0 = 0;
          negationsInNewer = findMatchingPhrases newerText NEGATION_WORDS;
          hit1 = (length negationsInNewer > 0 \<and> length sharedTokens > 0);
          signals1 = (if hit1
                      then signals0 @ [''negation_pattern: '' @ dq @ join (dq @ '', '' @ dq) negationsInNewer @ dq
                                       @ '' with shared keywords ['' @ join '', '' sharedTokens @ '']'']
                      else signals0);
          score1 = (if hit1 then score0 + (0.25 + of_nat (length negationsInNewer) * 0.05) else score0);
          negationsInOlder = findMatchingPhrases olderText NEGATION_WORDS;
          hit2 = (length negationsInOlder > 0 \<and> length sharedTokens > 0);
          signals2 = (if hit2
                      then signals1 @ [''reverse_negation: older says '' @ dq @ join (dq @ '', '' @ dq) negationsInOlder @ dq
                                       @ '' with shared keywords ['' @ join '', '' sharedTokens @ '']'']
                      else signals1);
          score2 = (if hit2 then score1 + 0.15 else score1);
          newerSwitches = detectTechSwitches newerText;
          signals3 = foldl (\<lambda>signals sw.
                        if sw_from sw \<in> set olderTokens
                        then signals @ [''tech_switch: '' @ dq @ sw_pattern sw @ dq @ '' (older mentions '' @ sw_from sw @ '')'']
                        else signals) signals2 newerSwitches;
          score3 = foldl (\<lambda>score sw. if sw_from sw \<in> set olderTokens then score + 0.35 else score)
                     score2 newerSwitches;
          olderSwitches = detectTechSwitches olderText;
          signals4 = foldl (\<lambda>signals sw.
                        if sw_from sw \<in> set newerTokens \<or> sw_to sw \<in> set newerTokens
                        then signals @ [''prior_switch: older had '' @ dq @ sw_pattern sw @ dq]
                        else signals) signals3 olderSwitches;
          score4 = foldl (\<lambda>score sw.
                        if sw_from sw \<in> set newerTokens \<or> sw_to sw \<in> set newerTokens
                        then score + 0.15 else score) score3 olderSwitches;
          contradictions = findContradictoryAdjectives olderText newerText;
          signals5 = foldl (\<lambda>signals c.
                        signals @ [''contradictory_adjective: '' @ dq @ fst c @ dq @ '' vs '' @ dq @ snd c @ dq])
                       signals4 contradictions;
          score5 = foldl (\<lambda>score c. score + 0.2) score4 contradictions;
          overrides = findMatchingPhrases newerText TEMPORAL_OVERRIDE_PHRASES;
          hit6 = (length overrides > 0 \<and> length sharedTokens > 0);
          signals6 = (if hit6
                      then signals5 @ [''temporal_override: '' @ dq @ join (dq @ '', '' @ dq) overrides @ dq
                                       @ '' with shared keywords ['' @ join '', '' sharedTokens @ '']'']
                      else signals5);
          score6 = (if hit6 then score5 + (0.2 + of_nat (length overrides) * 0.05) else score5);
          score7 = (if overlap > 0.15 then score6 + overlap * 0.3 else score6)
      in (signals6, score7))"



definition comparePair :: "string \<times> contentType \<Rightarrow> string list \<Rightarrow> string \<times> contentType \<Rightarrow> finding list" where
  "comparePair olderItem olderTokens newerItem =
     (let newerTokens = newSet (tokenize (fst newerItem)) in
      if length newerTokens = 0 then []
      else
        let overlap = jaccardSimilarity olderTokens newerTokens in
        if overlap < 0.05 then []
        else
          let acc = pairSignals (fst olderItem) olderTokens (fst newerItem) newerTokens overlap
          in if length (fst acc) > 0
             then [\<lparr>f_olderContent = fst olderItem, f_newerContent = fst newerItem,
                    f_olderContentType = snd olderItem, f_newerContentType = snd newerItem,
                    f_signals = fst acc, score = min (snd acc) 1.0\<rparr>]
             else [])"

definition compareDecisions :: "'a summary_scheme \<Rightarrow> 'b summary_scheme \<Rightarrow> finding list" where
  "compareDecisions older newer =
     (let olderItems = map (\<lambda>d. (d, Decision)) (decisions older) @ map (\<lambda>i. (i, Insight)) (keyInsights older);
          newerItems = map (\<lambda>d. (d, Decision)) (decisions newer) @ map (\<lambda>i. (i, Insight)) (keyInsights newer)
      in if length olderItems = 0 \<or> length newerItems = 0 then []
         else concat (map (\<lambda>olderItem.
                 let olderTokens = newSet (tokenize (fst olderItem))
                 in if length olderTokens = 0 then []
                    else concat (map (\<lambda>newerItem. comparePair olderItem olderTokens newerItem) newerItems))
               olderItems))"

definition compareSummaryLevel :: "'a summary_scheme \<Rightarrow> 'b summary_scheme \<Rightarrow> finding list" where
  "compareSummaryLevel older newer =
     (let olderText = join '' '' ([title older, summaryText older] @ decisions older @ keyInsights older);
          newerText = join '' '' ([title newer, summaryText newer] @ decisions newer @ keyInsights newer);
          newerSwitches = detectTechSwitches newerText;
          olderKeywords = extractKeywords older;
          switchCandidates = concat (map (\<lambda>sw.
              if sw_from sw \<in> set olderKeywords
              then [\<lparr>f_olderContent = ''Summary '' @ dq @ title older @ dq @ '' discusses '' @ sw_from sw,
                     f_newerContent = ''Summary '' @ dq @ title newer @ dq @ '' suggests: '' @ sw_pattern sw,
                     f_olderContentType = SummaryLevel, f_newerContentType = SummaryLevel,
                     f_signals = [''summary_level_tech_switch: '' @ dq @ sw_pattern sw @ dq
                                  @ '' contradicts older knowledge about '' @ sw_from sw],
                     score = 0.3\<rparr>]
              else []) newerSwitches);
          newerKeywords = extractKeywords newer;
          keywordOverlap = jaccardSimilarity olderKeywords newerKeywords;
          adjConflicts = findContradictoryAdjectives olderText newerText
      in switchCandidates @
         (if keywordOverlap > 0.15 \<and> length adjConflicts \<ge> 2
          then [\<lparr>f_olderContent = ''Summary '' @ dq @ title older @ dq,
                 f_newerContent = ''Summary '' @ dq @ title newer @ dq,
                 f_olderContentType = SummaryLevel, f_newerContentType = SummaryLevel,
                 f_signals = map (\<lambda>c. ''summary_adjective_conflict: '' @ dq @ fst c @ dq @ '' vs '' @ dq @ snd c @ dq) adjConflicts,
                 score = min (0.2 + of_nat (length adjConflicts) * 0.1) 0.7\<rparr>]
          else []))"

section \<open>Candidate discovery\<close>

text \<open>
  The six fields a candidate and a stored conflict share; the deduplication key is built
  from four of them.
\<close>

record pairRef =
  olderSummaryId :: string
  newerSummaryId :: string
  olderTopicId :: "string option"
  newerTopicId :: "string option"
  olderContent :: string
  newerContent :: string

record candidate = pairRef +
  signals :: "string list"
  heuristicScore :: rat

text \<open>The key \<^verbatim>\<open>`${c.olderSummaryId}|${c.newerSummaryId}|${c.olderContent}|${c.newerContent}`\<close>\<close>

definition dedupKey :: "'a pairRef_scheme \<Rightarrow> string" where
  "dedupKey c = olderSummaryId c @ ''|'' @ newerSummaryId c @ ''|'' @ olderContent c @ ''|'' @ newerContent c"

text \<open>The block that \<^verbatim>\<open>findCandidateConflicts\<close> (twice) and \<^verbatim>\<open>checkNewSummary\<close> run on an
  ordered pair: both matchers, the threshold, and the candidate built from each result.\<close>

definition pairCandidates :: "summary \<Rightarrow> summary \<Rightarrow> candidate list" where
  "pairCandidates older newer =
     (let decisionCandidates = compareDecisions older newer;
          summaryCandidates = compareSummaryLevel older newer;
          combined = decisionCandidates @ summaryCandidates
      in map (\<lambda>c. \<lparr>olderSummaryId = sid older, newerSummaryId = sid newer,
                     olderTopicId = topicId older, newerTopicId = topicId newer,
                     olderContent = f_olderContent c, newerContent = f_newerContent c,
                     signals = f_signals c, heuristicScore = score c\<rparr>)
           (filter (\<lambda>c. score c \<ge> HEURISTIC_SCORE_THRESHOLD) combined))"

text \<open>\<^verbatim>\<open>if (s.topicId)\<close>: a missing, \<^verbatim>\<open>null\<close> or empty topic id is falsy.\<close>

definition hasTopic :: "summary \<Rightarrow> bool" where
  "hasTopic s = (case topicId s of None \<Rightarrow> False | Some t \<Rightarrow> t \<noteq> [])"

text \<open>\<^verbatim>\<open>byTopic\<close> is a \<^verbatim>\<open>Map\<close>: an association list in insertion order of the keys.\<close>

fun pushGroup :: "string \<Rightarrow> summary \<Rightarrow> (string \<times> summary list) list \<Rightarrow> (string \<times> summary list) list" where
  "pushGroup k s [] = [(k, [s])]"
| "pushGroup k s ((k', g) # rest) =
     (if k' = k then (k', g @ [s]) # rest else (k', g) # pushGroup k s rest)"

definition groupByTopic :: "summary list \<Rightarrow> (string \<times> summary list) list" where
  "groupByTopic summaries =
     foldl (\<lambda>byTopic s.
              case topicId s of
                None \<Rightarrow> byTopic
              | Some t \<Rightarrow> if t \<noteq> [] then pushGroup t s byTopic else byTopic)
       [] summaries"

definition unassigned :: "summary list \<Rightarrow> summary list" where
  "unassigned summaries = filter (\<lambda>s. \<not> hasTopic s) summaries"

text \<open>
  \<^verbatim>\<open>Array.prototype.sort\<close> is stable; \<open>lt a b\<close> says that the comparator is negative on
  \<open>(a, b)\<close>. When every timestamp of a group parses, the comparator is consistent and the
  result of a stable sort is determined: it is the list below. A timestamp that does not
  parse makes the comparator return \<^verbatim>\<open>NaN\<close>; the order is then left to the engine by the
  language, and the list below (which reads \<^verbatim>\<open>NaN\<close> as "not less") is one permutation of the
  group, not necessarily the engine's.
\<close>

fun insertSorted :: "('a \<Rightarrow> 'a \<Rightarrow> bool) \<Rightarrow> 'a \<Rightarrow> 'a list \<Rightarrow> 'a list" where
  "insertSorted lt x [] = [x]"
| "insertSorted lt x (y # ys) = (if lt x y then x # y # ys else y # insertSorted lt x ys)"

definition stableSort :: "('a \<Rightarrow> 'a \<Rightarrow> bool) \<Rightarrow> 'a list \<Rightarrow> 'a list" where
  "stableSort lt xs = foldl (\<lambda>acc x. insertSorted lt x acc) [] xs"

definition timeLess :: "summary \<Rightarrow> summary \<Rightarrow> bool" where
  "timeLess a b = (case (createdAt a, createdAt b) of (Some x, Some y) \<Rightarrow> x - y < 0 | _ \<Rightarrow> False)"

text \<open>\<^verbatim>\<open>aTime <= bTime\<close>, false when either side is \<^verbatim>\<open>NaN\<close>.\<close>

definition timeLe :: "summary \<Rightarrow> summary \<Rightarrow> bool" where
  "timeLe a b = (case (createdAt a, createdAt b) of (Some x, Some y) \<Rightarrow> x \<le> y | _ \<Rightarrow> False)"

text \<open>The pairs \<open>(xs[i], xs[j])\<close> with \<open>i < j\<close>, in the order of the two nested loops.\<close>

fun orderedPairs :: "'a list \<Rightarrow> ('a \<times> 'a) list" where
  "orderedPairs [] = []"
| "orderedPairs (x # xs) = map (Pair x) xs @ orderedPairs xs"

text \<open>\<^verbatim>\<open>topicMap\<close>: a later topic with the same id replaces an earlier one.\<close>

definition topicMap :: "topic list \<Rightarrow> string \<Rightarrow> topic option" where
  "topicMap topics = map_of (rev (map (\<lambda>t. (tid t, t)) topics))"

fun dedupe :: "string list \<Rightarrow> candidate list \<Rightarrow> candidate list" where
  "dedupe seen [] = []"
| "dedupe seen (c # cs) =
     (if dedupKey c \<in> set seen then dedupe seen cs else c # dedupe (dedupKey c # seen) cs)"

definition intraTopic :: "(string \<times> summary list) list \<Rightarrow> candidate list" where
  "intraTopic byTopic =
     concat (map (\<lambda>entry.
        concat (map (\<lambda>pair. pairCandidates (fst pair) (snd pair)) (orderedPairs (snd entry))))
      byTopic)"

definition crossPair :: "summary \<Rightarrow> summary \<Rightarrow> candidate list" where
  "crossPair sA sB =
     (let older = (if timeLe sA sB then sA else sB);
          newer = (if timeLe sA sB then sB else sA)
      in pairCandidates older newer)"

definition crossTopic :: "(string \<Rightarrow> topic option) \<Rightarrow> (string \<times> summary list) list \<Rightarrow> candidate list" where
  "crossTopic tmap byTopic =
     concat (map (\<lambda>ab.
        case tmap (fst (fst ab)) of
          None \<Rightarrow> []
        | Some topicA \<Rightarrow>
            (case tmap (fst (snd ab)) of
               None \<Rightarrow> []
             | Some topicB \<Rightarrow>
                 if tagOverlap (ttags topicA) (ttags topicB) \<le> 0.5 then []
                 else concat (map (\<lambda>sA. concat (map (\<lambda>sB. crossPair sA sB) (snd (snd ab))))
                                (snd (fst ab)))))
      (orderedPairs byTopic))"

text \<open>\<open>None\<close> for the data: \<^verbatim>\<open>dbGetAll\<close> rejected.\<close>

definition findCandidateConflicts :: "(summary list \<times> topic list) option \<Rightarrow> candidate list" where
  "findCandidateConflicts db =
     (case db of
        None \<Rightarrow> []
      | Some (summaries, topics) \<Rightarrow>
          if length summaries < 2 then []
          else
            let byTopic = map (\<lambda>entry. (fst entry, stableSort timeLess (snd entry))) (groupByTopic summaries);
                allCandidates = intraTopic byTopic @ crossTopic (topicMap topics) byTopic;
                deduplicated = dedupe [] allCandidates
            in stableSort (\<lambda>a b. heuristicScore b - heuristicScore a < 0) deduplicated)"

section \<open>Verification by the judgment service\<close>

text \<open>
  A field of the parsed reply is a JSON scalar or absent. \<open>truthy\<close> is JavaScript's
  \<^verbatim>\<open>ToBoolean\<close>, \<open>jsLess v x\<close> is \<^verbatim>\<open>v < x\<close> for a number \<open>x\<close>: \<^verbatim>\<open>undefined\<close> converts to
  \<^verbatim>\<open>NaN\<close>, and every comparison with \<^verbatim>\<open>NaN\<close> is false.
\<close>

datatype jsval = JUndefined | JNull | JBool bool | JNum rat

fun truthy :: "jsval \<Rightarrow> bool" where
  "truthy JUndefined = False"
| "truthy JNull = False"
| "truthy (JBool b) = b"
| "truthy (JNum n) = (n \<noteq> 0)"

fun toNumber :: "jsval \<Rightarrow> rat option" where
  "toNumber JUndefined = None"
| "toNumber JNull = Some 0"
| "toNumber (JBool b) = Some (if b then 1 else 0)"
| "toNumber (JNum n) = Some n"

definition jsLess :: "jsval \<Rightarrow> rat \<Rightarrow> bool" where
  "jsLess v x = (case toNumber v of None \<Rightarrow> False | Some n \<Rightarrow> n < x)"

record parsed =
  isConflict :: jsval
  p_type :: "string option"
  p_severity :: "string option"
  p_analysis :: "string option"
  p_recommendation :: "string option"
  confidenceScore :: jsval

text \<open>\<^verbatim>\<open>JSON.parse(result.content)\<close>: a syntax error, \<^verbatim>\<open>null\<close>, or a value whose fields
  can be read.\<close>

datatype parseResult = SyntaxError | ParsedNull | Parsed parsed

record completion =
  content :: parseResult
  model :: string
  providerType :: string
  total_tokens :: "nat option"

text \<open>\<^verbatim>\<open>await complete(...)\<close> rejects (no provider answered) or resolves.\<close>

datatype judgeReply = Rejected | Resolved completion

datatype status = Open | ResolvedStatus | Dismissed

record conflict = pairRef +
  cid :: string
  ctype :: string
  severity :: string
  status :: status
  analysis :: string
  recommendation :: string
  resolvedAt :: "string option"
  resolution :: "string option"
  resolutionNote :: "string option"
  detectedAt :: string
  modelUsed :: "string option"
  providerUsed :: "string option"
  m_confidenceScore :: jsval
  m_heuristicScore :: rat
  tokensUsed :: nat
  m_signals :: "string list"

text \<open>
  What the engine reads from outside: the two stores of the database, whether a provider
  is enabled, the judge's reply to a candidate, the \<open>k\<close>-th identifier that
  \<^verbatim>\<open>generateId()\<close> draws, the clock (\<^verbatim>\<open>new Date().toISOString()\<close>), and whether the read of
  \<^verbatim>\<open>chrome.storage.local\<close> inside \<^verbatim>\<open>getAllConflicts\<close> succeeds.
\<close>

record env =
  dbGetAll :: "(summary list \<times> topic list) option"
  hasEnabledProvider :: bool
  complete :: "candidate \<Rightarrow> judgeReply"
  generateId :: "nat \<Rightarrow> string"
  now :: string
  ledgerReadable :: bool

text \<open>The stored state: the list under the key \<^verbatim>\<open>conflicts\<close> of \<^verbatim>\<open>chrome.storage.local\<close>
  and how many identifiers have been drawn. \<^verbatim>\<open>saveConflict\<close> and \<^verbatim>\<open>updateConflict\<close> rethrow a
  storage failure, which ends the operation; the model follows the runs in which their reads
  and writes succeed.\<close>

record world =
  conflicts :: "conflict list"
  drawn :: nat

text \<open>\<^verbatim>\<open>x || d\<close> for an optional string.\<close>

definition orElse :: "string option \<Rightarrow> string \<Rightarrow> string" where
  "orElse x d = (case x of None \<Rightarrow> d | Some v \<Rightarrow> if v = [] then d else v)"

text \<open>The object that \<^verbatim>\<open>verifySingleCandidate\<close> returns for a confirmed candidate.\<close>

definition verifiedConflict :: "env \<Rightarrow> nat \<Rightarrow> candidate \<Rightarrow> completion \<Rightarrow> parsed \<Rightarrow> conflict" where
  "verifiedConflict e k candidate result parsed =
     \<lparr>olderSummaryId = olderSummaryId candidate,
      newerSummaryId = newerSummaryId candidate,
      olderTopicId = olderTopicId candidate,
      newerTopicId = newerTopicId candidate,
      olderContent = olderContent candidate,
      newerContent = newerContent candidate,
      cid = generateId e k,
      ctype = orElse (p_type parsed) ''approach_conflict'',
      severity = orElse (p_severity parsed) ''medium'',
      status = Open,
      analysis = orElse (p_analysis parsed) [],
      recommendation = orElse (p_recommendation parsed) [],
      resolvedAt = None,
      resolution = None,
      resolutionNote = None,
      detectedAt = now e,
      modelUsed = Some (model result),
      providerUsed = Some (providerType result),
      m_confidenceScore = confidenceScore parsed,
      m_heuristicScore = heuristicScore candidate,
      tokensUsed = (case total_tokens result of None \<Rightarrow> 0 | Some n \<Rightarrow> n),
      m_signals = signals candidate\<rparr>"

text \<open>A rejected request and a reply that does not parse are caught and give \<^verbatim>\<open>null\<close>; so
  does reading a field of a parsed \<^verbatim>\<open>null\<close>.\<close>

definition verifySingleCandidate :: "env \<Rightarrow> nat \<Rightarrow> candidate \<Rightarrow> conflict option" where
  "verifySingleCandidate e k candidate =
     (case complete e candidate of
        Rejected \<Rightarrow> None
      | Resolved result \<Rightarrow>
          (case content result of
             SyntaxError \<Rightarrow> None
           | ParsedNull \<Rightarrow> None
           | Parsed parsed \<Rightarrow>
               if \<not> truthy (isConflict parsed) \<or> jsLess (confidenceScore parsed) AI_CONFIDENCE_THRESHOLD
               then None
               else Some (verifiedConflict e k candidate result parsed)))"

text \<open>The batches of the loop \<^verbatim>\<open>for (i = 0; i < toVerify.length; i += 5)\<close>, each with the
  index of its first element.\<close>

function batches :: "nat \<Rightarrow> nat \<Rightarrow> 'a list \<Rightarrow> (nat \<times> 'a list) list" where
  "batches n i xs =
     (if n = 0 \<or> xs = [] then [] else (i, take n xs) # batches n (i + n) (drop n xs))"
  by pat_completeness auto
termination
  by (relation "measure (\<lambda>(n, i, xs). length xs)") auto

declare batches.simps [simp del]

text \<open>\<^verbatim>\<open>Promise.allSettled\<close> over one batch: every member's outcome, in order; the loop
  keeps the fulfilled, non-null ones.\<close>

definition verifyBatch :: "env \<Rightarrow> nat \<Rightarrow> nat \<times> candidate list \<Rightarrow> conflict list" where
  "verifyBatch e base b =
     concat (map (\<lambda>jc.
               case verifySingleCandidate e (base + fst b + fst jc) (snd jc) of
                 None \<Rightarrow> []
               | Some v \<Rightarrow> [v])
          (zip [0 ..< length (snd b)] (snd b)))"

text \<open>\<open>maxCandidates = None\<close>: the option is absent.\<close>

definition verifyConflicts :: "env \<Rightarrow> nat \<Rightarrow> candidate list \<Rightarrow> nat option \<Rightarrow> conflict list" where
  "verifyConflicts e base candidates maxCandidatesOpt =
     (if length candidates = 0 then []
      else if \<not> hasEnabledProvider e then []
      else
        let maxCandidates = (case maxCandidatesOpt of None \<Rightarrow> 20 | Some m \<Rightarrow> if m = 0 then 20 else m);
            toVerify = take maxCandidates candidates
        in concat (map (verifyBatch e base) (batches MAX_CONCURRENT_AI_REQUESTS 0 toVerify)))"

section \<open>Conflict storage and the public operations\<close>

text \<open>The conflict that the two heuristic-only branches (in \<^verbatim>\<open>checkNewSummary\<close> and in
  \<^verbatim>\<open>runFullScan\<close>) build for a candidate: the same object literal in both.\<close>

definition heuristicConflict :: "env \<Rightarrow> nat \<Rightarrow> candidate \<Rightarrow> conflict" where
  "heuristicConflict e k candidate =
     \<lparr>olderSummaryId = olderSummaryId candidate,
      newerSummaryId = newerSummaryId candidate,
      olderTopicId = olderTopicId candidate,
      newerTopicId = newerTopicId candidate,
      olderContent = olderContent candidate,
      newerContent = newerContent candidate,
      cid = generateId e k,
      ctype = ''approach_conflict'',
      severity = (if heuristicScore candidate \<ge> 0.7 then ''high'' else ''medium''),
      status = Open,
      analysis = ''Heuristic analysis detected potential conflict based on: '' @ join ''; '' (signals candidate),
      recommendation = ''Review both items and decide which reflects your current thinking.'',
      resolvedAt = None,
      resolution = None,
      resolutionNote = None,
      detectedAt = now e,
      modelUsed = None,
      providerUsed = None,
      m_confidenceScore = JNum (heuristicScore candidate),
      m_heuristicScore = heuristicScore candidate,
      tokensUsed = 0,
      m_signals = signals candidate\<rparr>"

definition heuristicOnly :: "env \<Rightarrow> nat \<Rightarrow> candidate list \<Rightarrow> conflict list" where
  "heuristicOnly e base candidates =
     map (\<lambda>jc. heuristicConflict e (base + fst jc) (snd jc))
       (filter (\<lambda>jc. heuristicScore (snd jc) \<ge> 0.5)
          (zip [0 ..< length candidates] candidates))"

definition saveConflict :: "conflict \<Rightarrow> world \<Rightarrow> world" where
  "saveConflict c w = w\<lparr>conflicts := conflicts w @ [c]\<rparr>"

definition saveAll :: "conflict list \<Rightarrow> world \<Rightarrow> world" where
  "saveAll cs w = foldl (\<lambda>w c. saveConflict c w) w cs"

fun findIndex :: "('a \<Rightarrow> bool) \<Rightarrow> 'a list \<Rightarrow> nat option" where
  "findIndex P [] = None"
| "findIndex P (x # xs) =
     (if P x then Some 0 else (case findIndex P xs of None \<Rightarrow> None | Some i \<Rightarrow> Some (Suc i)))"

text \<open>\<^verbatim>\<open>{ ...conflicts[index], ...updates }\<close>: \<open>updates\<close> overwrites the fields it names.\<close>

definition updateConflict :: "string \<Rightarrow> (conflict \<Rightarrow> conflict) \<Rightarrow> world \<Rightarrow> conflict option \<times> world" where
  "updateConflict conflictId updates w =
     (case findIndex (\<lambda>c. cid c = conflictId) (conflicts w) of
        None \<Rightarrow> (None, w)
      | Some index \<Rightarrow>
          let updated = updates (conflicts w ! index)
          in (Some updated, w\<lparr>conflicts := (conflicts w)[index := updated]\<rparr>))"

text \<open>\<^verbatim>\<open>getAllConflicts\<close> catches a failed read and returns the empty list.\<close>

definition getAllConflicts :: "env \<Rightarrow> world \<Rightarrow> conflict list" where
  "getAllConflicts e w = (if ledgerReadable e then conflicts w else [])"

definition validResolutions :: "string list" where
  "validResolutions = [''keep_newer'', ''keep_older'', ''keep_both'', ''custom'']"

definition resolveConflict :: "env \<Rightarrow> string \<Rightarrow> string \<Rightarrow> string \<Rightarrow> world \<Rightarrow> conflict option \<times> world" where
  "resolveConflict e conflictId res note w =
     (if conflictId = [] \<or> res = [] then (None, w)
      else if res \<notin> set validResolutions then (None, w)
      else updateConflict conflictId
             (\<lambda>c. c\<lparr>status := ResolvedStatus, resolution := Some res,
                    resolutionNote := Some note, resolvedAt := Some (now e)\<rparr>) w)"

definition dismissConflict :: "env \<Rightarrow> string \<Rightarrow> world \<Rightarrow> conflict option \<times> world" where
  "dismissConflict e conflictId w =
     (if conflictId = [] then (None, w)
      else updateConflict conflictId
             (\<lambda>c. c\<lparr>status := Dismissed, resolvedAt := Some (now e)\<rparr>) w)"

subsection \<open>checkNewSummary\<close>

definition comparables :: "summary \<Rightarrow> summary list \<Rightarrow> summary list" where
  "comparables summary existingSummaries =
     filter (\<lambda>existing.
        if sid existing = sid summary then False
        else if hasTopic summary \<and> topicId existing = topicId summary then True
        else tagOverlap (tags summary) (tags existing) > 0.5) existingSummaries"

text \<open>The body of the loop over the comparable records: the roles are chosen by the two
  conditional expressions on \<^verbatim>\<open>existingTime <= newSummaryTime\<close>.\<close>

definition checkPair :: "summary \<Rightarrow> summary \<Rightarrow> candidate list" where
  "checkPair summary existing =
     (let older = (if timeLe existing summary then existing else summary);
          newer = (if timeLe existing summary then summary else existing)
      in pairCandidates older newer)"

definition checkNewSummary :: "env \<Rightarrow> summary \<Rightarrow> bool \<Rightarrow> world \<Rightarrow> conflict list \<times> world" where
  "checkNewSummary e summary useAI w =
     (if sid summary = [] then ([], w)
      else case dbGetAll e of
        None \<Rightarrow> ([], w)
      | Some (existingSummaries, topics) \<Rightarrow>
          if length existingSummaries = 0 then ([], w)
          else
            let comps = comparables summary existingSummaries in
            if length comps = 0 then ([], w)
            else
              let candidates = concat (map (checkPair summary) comps) in
              if length candidates = 0 then ([], w)
              else
                let deduplicated = dedupe [] candidates;
                    hasProvider = (if useAI then hasEnabledProvider e else False);
                    detected = (if useAI \<and> hasProvider
                                then verifyConflicts e (drawn w) deduplicated (Some 10)
                                else heuristicOnly e (drawn w) deduplicated)
                in (detected, saveAll detected (w\<lparr>drawn := drawn w + length deduplicated\<rparr>)))"

subsection \<open>runFullScan\<close>

record scanOptions =
  maxCandidates :: "nat option"
  heuristicThreshold :: "rat option"

record scanResult =
  found :: nat
  verified :: nat
  scanConflicts :: "conflict list"

definition runFullScan :: "env \<Rightarrow> scanOptions \<Rightarrow> world \<Rightarrow> scanResult \<times> world" where
  "runFullScan e options w =
     (let maxC = (case maxCandidates options of None \<Rightarrow> 20 | Some m \<Rightarrow> m);
          threshold = (case heuristicThreshold options of None \<Rightarrow> HEURISTIC_SCORE_THRESHOLD | Some t \<Rightarrow> t);
          candidates = findCandidateConflicts (dbGetAll e);
          filteredCandidates = filter (\<lambda>c. heuristicScore c \<ge> threshold) candidates
      in if length filteredCandidates = 0
         then (\<lparr>found = 0, verified = 0, scanConflicts = []\<rparr>, w)
         else
           let existingConflicts = getAllConflicts e w;
               existingKeys = map dedupKey existingConflicts;
               newCandidates = filter (\<lambda>c. dedupKey c \<notin> set existingKeys) filteredCandidates
           in if length newCandidates = 0
              then (\<lparr>found = length filteredCandidates, verified = 0, scanConflicts = []\<rparr>, w)
              else
                let verifiedConflicts =
                      (if hasEnabledProvider e
                       then verifyConflicts e (drawn w) newCandidates (Some maxC)
                       else heuristicOnly e (drawn w) newCandidates)
                in (\<lparr>found = length filteredCandidates,
                     verified = length verifiedConflicts,
                     scanConflicts = verifiedConflicts\<rparr>,
                    saveAll verifiedConflicts (w\<lparr>drawn := drawn w + length newCandidates\<rparr>)))"

section \<open>Reachable stores\<close>

text \<open>The stores that the exported operations produce from the empty one, whatever the
  database, the judge and the clock do.\<close>

inductive reachable :: "world \<Rightarrow> bool" where
  initial: "reachable \<lparr>conflicts = [], drawn = 0\<rparr>"
| check: "reachable w \<Longrightarrow> reachable (snd (checkNewSummary e summary useAI w))"
| scan: "reachable w \<Longrightarrow> reachable (snd (runFullScan e options w))"
| resolve: "reachable w \<Longrightarrow> reachable (snd (resolveConflict e conflictId res note w))"
| dismiss: "reachable w \<Longrightarrow> reachable (snd (dismissConflict e conflictId w))"

text \<open>The invariant of a stored conflict: an open one carries no resolution.\<close>

definition openInvariant :: "conflict \<Rightarrow> bool" where
  "openInvariant c = (status c = Open \<longrightarrow> resolvedAt c = None \<and> resolution c = None)"

section \<open>A small knowledge base\<close>

text \<open>Two records of one topic, a judge that confirms every candidate with confidence
  0.9, and one whose reply leaves the confidence out.\<close>

definition exOlder :: summary where
  "exOlder = \<lparr>sid = ''s1'', topicId = Some ''t1'', title = ''A'', summaryText = [],
               decisions = [''Use redis and mysql''], keyInsights = [], tags = [],
               createdAt = Some 1000\<rparr>"

definition exNewer :: summary where
  "exNewer = \<lparr>sid = ''s2'', topicId = Some ''t1'', title = ''B'', summaryText = [],
               decisions = [''switch redis to kafka, switch mysql to nats''], keyInsights = [], tags = [],
               createdAt = Some 2000\<rparr>"

text \<open>A third record that repeats the newer decision but has no topic.\<close>

definition exLoose :: summary where
  "exLoose = \<lparr>sid = ''s3'', topicId = None, title = ''C'', summaryText = [],
               decisions = [''switch redis to kafka, switch mysql to nats''], keyInsights = [], tags = [],
               createdAt = Some 3000\<rparr>"

definition exItem :: candidate where
  "exItem = \<lparr>olderSummaryId = ''s1'', newerSummaryId = ''s2'',
              olderTopicId = Some ''t1'', newerTopicId = Some ''t1'',
              olderContent = ''Use redis and mysql'',
              newerContent = ''switch redis to kafka, switch mysql to nats'',
              signals = [''tech_switch: '' @ dq @ ''switch redis to kafka'' @ dq @ '' (older mentions redis)''],
              heuristicScore = 0.47\<rparr>"

definition exWhole :: candidate where
  "exWhole = \<lparr>olderSummaryId = ''s1'', newerSummaryId = ''s2'',
               olderTopicId = Some ''t1'', newerTopicId = Some ''t1'',
               olderContent = ''Summary '' @ dq @ ''A'' @ dq @ '' discusses redis'',
               newerContent = ''Summary '' @ dq @ ''B'' @ dq @ '' suggests: switch redis to kafka'',
               signals = [''summary_level_tech_switch: '' @ dq @ ''switch redis to kafka'' @ dq
                          @ '' contradicts older knowledge about redis''],
               heuristicScore = 0.3\<rparr>"

definition exReply :: "jsval \<Rightarrow> jsval \<Rightarrow> judgeReply" where
  "exReply verdict confidence =
     Resolved \<lparr>content = Parsed \<lparr>isConflict = verdict, p_type = Some ''decision_conflict'',
                                  p_severity = Some ''high'', p_analysis = Some ''opposite decisions'',
                                  p_recommendation = Some ''keep the newer one'',
                                  confidenceScore = confidence\<rparr>,
               model = ''m'', providerType = ''p'', total_tokens = Some 10\<rparr>"

definition exEnv :: env where
  "exEnv = \<lparr>dbGetAll = Some ([exOlder, exNewer], []),
             hasEnabledProvider = True,
             complete = (\<lambda>c. exReply (JBool True) (JNum 0.9)),
             generateId = (\<lambda>k. replicate (Suc k) CHR ''c''),
             now = ''2024-01-01T00:00:00.000Z'',
             ledgerReadable = True\<rparr>"

definition exEnvNoScore :: env where
  "exEnvNoScore = exEnv\<lparr>complete := (\<lambda>c. exReply (JBool True) JUndefined)\<rparr>"

text \<open>The conflict the confirming judge of \<open>exEnv\<close> yields for a candidate, with the
  \<open>k\<close>-th identifier; and a scan limited to one verification.\<close>

definition exAccepted :: "nat \<Rightarrow> candidate \<Rightarrow> conflict" where
  "exAccepted k candidate =
     \<lparr>olderSummaryId = olderSummaryId candidate,
      newerSummaryId = newerSummaryId candidate,
      olderTopicId = olderTopicId candidate,
      newerTopicId = newerTopicId candidate,
      olderContent = olderContent candidate,
      newerContent = newerContent candidate,
      cid = replicate (Suc k) CHR ''c'',
      ctype = ''decision_conflict'',
      severity = ''high'',
      status = Open,
      analysis = ''opposite decisions'',
      recommendation = ''keep the newer one'',
      resolvedAt = None,
      resolution = None,
      resolutionNote = None,
      detectedAt = ''2024-01-01T00:00:00.000Z'',
      modelUsed = Some ''m'',
      providerUsed = Some ''p'',
      m_confidenceScore = JNum 0.9,
      m_heuristicScore = heuristicScore candidate,
      tokensUsed = 10,
      m_signals = signals candidate\<rparr>"

definition exOptions :: scanOptions where
  "exOptions = \<lparr>maxCandidates = Some 1, heuristicThreshold = None\<rparr>"

text \<open>The default options (\<^verbatim>\<open>runFullScan()\<close>), and the same environment with an enabled
  provider whose requests all fail.\<close>

definition exDefaults :: scanOptions where
  "exDefaults = \<lparr>maxCandidates = None, heuristicThreshold = None\<rparr>"


text \<open>The same environment when the ledger cannot be read.\<close>

definition exEnvUnreadable :: env where
  "exEnvUnreadable = exEnv\<lparr>ledgerReadable := False\<rparr>"

definition emptyWorld :: world where
  "emptyWorld = \<lparr>conflicts = [], drawn = 0\<rparr>"

section \<open>Properties\<close>

subsection \<open>Sets as lists\<close>

lemma set_uniq: "set (uniq seen xs) = set xs - set seen"
  by (induction xs arbitrary: seen) auto

lemma distinct_uniq: "distinct (uniq seen xs)"
  by (induction xs arbitrary: seen) (auto simp: set_uniq)

lemma set_newSet: "set (newSet xs) = set xs"
  by (simp add: newSet_def set_uniq)

lemma distinct_newSet: "distinct (newSet xs)"
  by (simp add: newSet_def distinct_uniq)

lemma intersection_card:
  assumes "distinct A"
  shows "length (filter (\<lambda>item. item \<in> set B) A) = card (set A \<inter> set B)"
proof -
  have "card (set (filter (\<lambda>item. item \<in> set B) A)) = length (filter (\<lambda>item. item \<in> set B) A)"
    by (rule distinct_card) (simp add: assms)
  moreover have "set (filter (\<lambda>item. item \<in> set B) A) = set A \<inter> set B"
    by auto
  ultimately show ?thesis by simp
qed

lemma union_card:
  assumes "distinct A" "distinct B"
  shows "int (length A) + int (length B) - int (card (set A \<inter> set B)) = int (card (set A \<union> set B))"
proof -
  have "card (set A) + card (set B) = card (set A \<union> set B) + card (set A \<inter> set B)"
    by (rule card_Un_Int) simp_all
  moreover have "card (set A) = length A"
    by (rule distinct_card) (rule assms)
  moreover have "card (set B) = length B"
    by (rule distinct_card) (rule assms)
  ultimately have "length A + length B = card (set A \<union> set B) + card (set A \<inter> set B)"
    by simp
  then have "int (length A) + int (length B) = int (card (set A \<union> set B)) + int (card (set A \<inter> set B))"
    by (simp only: of_nat_add [symmetric])
  then show ?thesis by simp
qed

lemma jaccard_formula:
  assumes "distinct A" "distinct B"
  shows "jaccardSimilarity A B = of_nat (card (set A \<inter> set B)) / of_nat (card (set A \<union> set B))"
proof (cases "A = [] \<and> B = []")
  case True
  then show ?thesis by (simp add: jaccardSimilarity_def)
next
  case False
  have i: "length (filter (\<lambda>item. item \<in> set B) A) = card (set A \<inter> set B)"
    by (rule intersection_card[OF assms(1)])
  have u: "int (length A) + int (length B) - int (card (set A \<inter> set B)) = int (card (set A \<union> set B))"
    by (rule union_card[OF assms])
  from False have ne: "\<not> (length A = 0 \<and> length B = 0)" by simp
  show ?thesis
    unfolding jaccardSimilarity_def Let_def i u using ne by simp
qed

text \<open>
  C7. On sets (lists without repetition) \<open>jaccardSimilarity A B\<close> is the size of the
  intersection divided by the size of the union; it is 0 when both sets are empty, 1 when
  the two sets are equal and not empty, and always between 0 and 1.
\<close>

theorem jaccardSimilarity_spec:
  assumes "distinct A" and "distinct B"
  shows "jaccardSimilarity A B = of_nat (card (set A \<inter> set B)) / of_nat (card (set A \<union> set B))
       \<and> (A = [] \<and> B = [] \<longrightarrow> jaccardSimilarity A B = 0)
       \<and> (set A = set B \<and> A \<noteq> [] \<longrightarrow> jaccardSimilarity A B = 1)
       \<and> 0 \<le> jaccardSimilarity A B \<and> jaccardSimilarity A B \<le> 1"
proof -
  let ?i = "card (set A \<inter> set B)" and ?u = "card (set A \<union> set B)"
  have f: "jaccardSimilarity A B = of_nat ?i / of_nat ?u"
    by (rule jaccard_formula[OF assms])
  have le: "?i \<le> ?u"
    by (rule card_mono) auto
  have e: "A = [] \<and> B = [] \<longrightarrow> jaccardSimilarity A B = 0"
    by (simp add: jaccardSimilarity_def)
  have one: "set A = set B \<and> A \<noteq> [] \<longrightarrow> jaccardSimilarity A B = 1"
  proof
    assume h: "set A = set B \<and> A \<noteq> []"
    then have sb: "set B = set A" by blast
    have iu: "?i = card (set A)" "?u = card (set A)" unfolding sb by simp_all
    from h have ne: "A \<noteq> []" by blast
    then have pos: "card (set A) > 0" by (simp add: card_gt_0_iff)
    show "jaccardSimilarity A B = 1" unfolding f iu using pos ne by simp
  qed
  have nonneg: "0 \<le> jaccardSimilarity A B"
    unfolding f by simp
  have le1: "jaccardSimilarity A B \<le> 1"
  proof (cases "?u = 0")
    case True then show ?thesis unfolding f by simp
  next
    case False
    then have "0 < ?u" by (simp only: neq0_conv)
    then have p: "0 < rat_of_nat ?u" by (simp only: of_nat_0_less_iff)
    have q: "rat_of_nat ?i \<le> rat_of_nat ?u" using le by (simp only: of_nat_le_iff)
    show ?thesis unfolding f using p q by (simp only: divide_le_eq_1_pos)
  qed
  show ?thesis using f e one nonneg le1 by blast
qed

theorem jaccardSimilarity_spec_witness:
  "distinct [''redis'', ''cache''] \<and> distinct [''redis'', ''kafka'']
   \<and> jaccardSimilarity [''redis'', ''cache''] [''redis'', ''kafka''] = 1 / 3
   \<and> 0 \<le> jaccardSimilarity [''redis'', ''cache''] [''redis'', ''kafka'']
   \<and> jaccardSimilarity [''redis'', ''cache''] [''redis'', ''kafka''] \<le> 1"
proof -
  have d1: "distinct [''redis'', ''cache'']" by simp
  have d2: "distinct [''redis'', ''kafka'']" by simp
  have v: "jaccardSimilarity [''redis'', ''cache''] [''redis'', ''kafka''] = 1 / 3"
    by (simp add: jaccardSimilarity_def)
  show ?thesis
    using d1 d2 v jaccardSimilarity_spec[OF d1 d2] by blast
qed

subsection \<open>The pairwise matcher\<close>

lemma comparePair_capped:
  assumes "c \<in> set (comparePair olderItem olderTokens newerItem)"
  shows "score c \<le> 1 \<and> f_signals c \<noteq> []"
  using assms by (auto simp: comparePair_def Let_def split: if_splits)

lemma comparePair_no_signal:
  assumes "fst (pairSignals (fst olderItem) olderTokens (fst newerItem) (newSet (tokenize (fst newerItem)))
                  (jaccardSimilarity olderTokens (newSet (tokenize (fst newerItem))))) = []"
  shows "comparePair olderItem olderTokens newerItem = []"
  using assms by (simp add: comparePair_def Let_def)

lemma compareDecisions_from_pair:
  assumes "c \<in> set (compareDecisions older newer)"
  shows "\<exists>olderItem newerItem. c \<in> set (comparePair olderItem (newSet (tokenize (fst olderItem))) newerItem)"
  using assms by (auto simp: compareDecisions_def Let_def split: if_splits)

lemma jaccard_disjoint:
  assumes "set A \<inter> set B = {}"
  shows "jaccardSimilarity A B = 0"
proof -
  have "filter (\<lambda>item. item \<in> set B) A = []"
    using assms by (auto simp: filter_empty_conv)
  then show ?thesis by (simp add: jaccardSimilarity_def Let_def)
qed

lemma comparePair_disjoint:
  assumes "set olderTokens \<inter> set (tokenize (fst newerItem)) = {}"
  shows "comparePair olderItem olderTokens newerItem = []"
proof -
  have "set olderTokens \<inter> set (newSet (tokenize (fst newerItem))) = {}"
    using assms by (simp add: set_newSet)
  then have "jaccardSimilarity olderTokens (newSet (tokenize (fst newerItem))) = 0"
    by (rule jaccard_disjoint)
  then show ?thesis by (simp add: comparePair_def Let_def)
qed

lemma compareDecisions_disjoint:
  assumes "\<forall>a \<in> set (decisions older @ keyInsights older).
           \<forall>b \<in> set (decisions newer @ keyInsights newer). set (tokenize a) \<inter> set (tokenize b) = {}"
  shows "compareDecisions older newer = []"
proof -
  have "comparePair olderItem (newSet (tokenize (fst olderItem))) newerItem = []"
    if "fst olderItem \<in> set (decisions older @ keyInsights older)"
       "fst newerItem \<in> set (decisions newer @ keyInsights newer)" for olderItem newerItem
    using that assms by (intro comparePair_disjoint) (simp add: set_newSet)
  then show ?thesis
    by (auto simp: compareDecisions_def Let_def)
qed


lemma ex_compareDecisions:
  "compareDecisions exOlder exNewer =
     [\<lparr>f_olderContent = ''Use redis and mysql'',
       f_newerContent = ''switch redis to kafka, switch mysql to nats'',
       f_olderContentType = Decision, f_newerContentType = Decision,
       f_signals = [''tech_switch: '' @ dq @ ''switch redis to kafka'' @ dq @ '' (older mentions redis)''],
       score = 0.47\<rparr>]"
  by code_simp

lemma ex_no_signal:
  "pairSignals ''redis cache'' (newSet (tokenize ''redis cache'')) ''redis cache'' (newSet (tokenize ''redis cache''))
     (jaccardSimilarity (newSet (tokenize ''redis cache'')) (newSet (tokenize ''redis cache''))) = ([], 0.3)"
  by code_simp

text \<open>
  C5. Every candidate that \<open>compareDecisions\<close> emits has a score of at most 1 and at least
  one signal; a pair of items whose signal list stays empty yields no candidate, whatever the
  overlap boost added to the score.
\<close>

theorem compareDecisions_score_capped:
  "(\<forall>c \<in> set (compareDecisions older newer). score c \<le> 1 \<and> f_signals c \<noteq> [])
   \<and> (fst (pairSignals a (newSet (tokenize a)) b (newSet (tokenize b))
              (jaccardSimilarity (newSet (tokenize a)) (newSet (tokenize b)))) = []
        \<longrightarrow> comparePair (a, ta) (newSet (tokenize a)) (b, tb) = [])"
proof -
  have capped: "\<forall>c \<in> set (compareDecisions older newer). score c \<le> 1 \<and> f_signals c \<noteq> []"
  proof
    fix c assume "c \<in> set (compareDecisions older newer)"
    then obtain olderItem newerItem
      where "c \<in> set (comparePair olderItem (newSet (tokenize (fst olderItem))) newerItem)"
      using compareDecisions_from_pair by blast
    then show "score c \<le> 1 \<and> f_signals c \<noteq> []"
      by (rule comparePair_capped)
  qed
  have dropped: "fst (pairSignals a (newSet (tokenize a)) b (newSet (tokenize b))
              (jaccardSimilarity (newSet (tokenize a)) (newSet (tokenize b)))) = []
        \<longrightarrow> comparePair (a, ta) (newSet (tokenize a)) (b, tb) = []"
    using comparePair_no_signal[of "(a, ta)" "newSet (tokenize a)" "(b, tb)"] by simp
  show ?thesis using capped dropped by (rule conjI)
qed

theorem compareDecisions_score_capped_witness:
  "map score (compareDecisions exOlder exNewer) = [0.47]
   \<and> score (hd (compareDecisions exOlder exNewer)) \<le> 1
   \<and> f_signals (hd (compareDecisions exOlder exNewer)) \<noteq> []
   \<and> pairSignals ''redis cache'' (newSet (tokenize ''redis cache'')) ''redis cache'' (newSet (tokenize ''redis cache''))
        (jaccardSimilarity (newSet (tokenize ''redis cache'')) (newSet (tokenize ''redis cache''))) = ([], 0.3)
   \<and> comparePair (''redis cache'', Decision) (newSet (tokenize ''redis cache'')) (''redis cache'', Decision) = []"
  using compareDecisions_score_capped[of exOlder exNewer "''redis cache''" "''redis cache''" Decision Decision]
        ex_no_signal
  by (simp add: ex_compareDecisions)

text \<open>
  C6. Two fragments whose token sets share no element have Jaccard similarity 0, below the
  gate of 0.05: the matcher returns no candidate for the pair before any pattern is tried,
  and \<open>compareDecisions\<close> is empty when every pair of items is such.
\<close>

theorem disjoint_fragments_no_candidate:
  "(set (tokenize a) \<inter> set (tokenize b) = {}
      \<longrightarrow> jaccardSimilarity (newSet (tokenize a)) (newSet (tokenize b)) = 0
          \<and> comparePair (a, ta) (newSet (tokenize a)) (b, tb) = [])
   \<and> ((\<forall>x \<in> set (decisions older @ keyInsights older).
        \<forall>y \<in> set (decisions newer @ keyInsights newer). set (tokenize x) \<inter> set (tokenize y) = {})
      \<longrightarrow> compareDecisions older newer = [])"
proof (intro conjI impI)
  assume d: "set (tokenize a) \<inter> set (tokenize b) = {}"
  then show "jaccardSimilarity (newSet (tokenize a)) (newSet (tokenize b)) = 0"
    by (intro jaccard_disjoint) (simp add: set_newSet)
  from d show "comparePair (a, ta) (newSet (tokenize a)) (b, tb) = []"
    by (intro comparePair_disjoint) (simp add: set_newSet)
next
  assume "\<forall>x \<in> set (decisions older @ keyInsights older).
          \<forall>y \<in> set (decisions newer @ keyInsights newer). set (tokenize x) \<inter> set (tokenize y) = {}"
  then show "compareDecisions older newer = []"
    by (rule compareDecisions_disjoint)
qed

lemma ex_tokens_redis: "tokenize ''Use redis'' = [''redis'']"
  by code_simp

lemma ex_tokens_kafka: "tokenize ''Never use kafka'' = [''never'', ''kafka'']"
  by code_simp

theorem disjoint_fragments_no_candidate_witness:
  "set (tokenize ''Use redis'') \<inter> set (tokenize ''Never use kafka'') = {}
   \<and> jaccardSimilarity (newSet (tokenize ''Use redis'')) (newSet (tokenize ''Never use kafka'')) = 0
   \<and> comparePair (''Use redis'', Decision) (newSet (tokenize ''Use redis'')) (''Never use kafka'', Insight) = []
   \<and> compareDecisions (exOlder\<lparr>decisions := [''Use redis'']\<rparr>) (exNewer\<lparr>decisions := [''Never use kafka'']\<rparr>) = []"
proof -
  have d: "set (tokenize ''Use redis'') \<inter> set (tokenize ''Never use kafka'') = {}"
    by (simp add: ex_tokens_redis ex_tokens_kafka)
  have k: "\<forall>x \<in> set (decisions (exOlder\<lparr>decisions := [''Use redis'']\<rparr>) @ keyInsights (exOlder\<lparr>decisions := [''Use redis'']\<rparr>)).
           \<forall>y \<in> set (decisions (exNewer\<lparr>decisions := [''Never use kafka'']\<rparr>) @ keyInsights (exNewer\<lparr>decisions := [''Never use kafka'']\<rparr>)).
             set (tokenize x) \<inter> set (tokenize y) = {}"
    using d by (simp add: exOlder_def exNewer_def)
  show ?thesis
    using d k disjoint_fragments_no_candidate[of "''Use redis''" "''Never use kafka''" Decision Insight
            "exOlder\<lparr>decisions := [''Use redis'']\<rparr>" "exNewer\<lparr>decisions := [''Never use kafka'']\<rparr>"]
    by blast
qed

subsection \<open>Technology switches\<close>


lemma foldl_add_if:
  "foldl (\<lambda>acc x. if P x then acc + k else acc) (v :: rat) xs = v + k * of_nat (length (filter P xs))"
  by (induction xs arbitrary: v) (simp_all add: algebra_simps)


lemma foldl_add:
  "foldl (\<lambda>acc x. acc + k) (v :: rat) xs = v + k * of_nat (length xs)"
  by (induction xs arbitrary: v) (simp_all add: algebra_simps)



lemma detectTechSwitches_length: "length (detectTechSwitches text) \<le> 4"
  by (simp add: detectTechSwitches_def TECH_SWITCH_PATTERNS_def split: option.split)


lemma pairSignals_score:
  "snd (pairSignals olderText olderTokens newerText newerTokens overlap) =
     (let shared = filter (\<lambda>t. t \<in> set newerTokens) olderTokens;
          negN = findMatchingPhrases newerText NEGATION_WORDS;
          negO = findMatchingPhrases olderText NEGATION_WORDS;
          ovr = findMatchingPhrases newerText TEMPORAL_OVERRIDE_PHRASES
      in (if length negN > 0 \<and> length shared > 0 then 0.25 + of_nat (length negN) * 0.05 else 0)
       + (if length negO > 0 \<and> length shared > 0 then 0.15 else 0)
       + 0.35 * of_nat (length (filter (\<lambda>sw. sw_from sw \<in> set olderTokens) (detectTechSwitches newerText)))
       + 0.15 * of_nat (length (filter (\<lambda>sw. sw_from sw \<in> set newerTokens \<or> sw_to sw \<in> set newerTokens)
                                  (detectTechSwitches olderText)))
       + 0.2 * of_nat (length (findContradictoryAdjectives olderText newerText))
       + (if length ovr > 0 \<and> length shared > 0 then 0.2 + of_nat (length ovr) * 0.05 else 0)
       + (if overlap > 0.15 then overlap * 0.3 else 0))"
  by (simp add: pairSignals_def Let_def foldl_add_if foldl_add)

subsection \<open>Candidate discovery\<close>

lemma set_insertSorted: "set (insertSorted lt x ys) = insert x (set ys)"
  by (induction ys) auto

lemma set_foldl_insertSorted:
  "set (foldl (\<lambda>acc x. insertSorted lt x acc) acc xs) = set acc \<union> set xs"
  by (induction xs arbitrary: acc) (auto simp: set_insertSorted)

lemma set_stableSort: "set (stableSort lt xs) = set xs"
  by (simp add: stableSort_def set_foldl_insertSorted)

lemma pushGroup_members:
  "(k', g) \<in> set (pushGroup k s groups) \<Longrightarrow> x \<in> set g \<Longrightarrow>
     (x = s \<and> k' = k) \<or> (\<exists>g0. (k', g0) \<in> set groups \<and> x \<in> set g0)"
proof (induction groups)
  case Nil
  then show ?case by simp
next
  case (Cons entry rest)
  obtain k0 g0 where entry: "entry = (k0, g0)" by (cases entry)
  show ?case
  proof (cases "k0 = k")
    case True
    with Cons.prems(1) entry have "(k', g) = (k0, g0 @ [s]) \<or> (k', g) \<in> set rest" by simp
    then show ?thesis
    proof
      assume eq: "(k', g) = (k0, g0 @ [s])"
      with Cons.prems(2) have "x \<in> set g0 \<or> x = s" by auto
      then show ?thesis using eq True entry by auto
    next
      assume "(k', g) \<in> set rest"
      then show ?thesis using Cons.prems(2) by auto
    qed
  next
    case False
    with Cons.prems(1) entry have "(k', g) = (k0, g0) \<or> (k', g) \<in> set (pushGroup k s rest)" by simp
    then show ?thesis
    proof
      assume "(k', g) = (k0, g0)"
      then show ?thesis using Cons.prems(2) entry by auto
    next
      assume "(k', g) \<in> set (pushGroup k s rest)"
      from Cons.IH[OF this Cons.prems(2)] show ?thesis by auto
    qed
  qed
qed

lemma groupByTopic_fold_members:
  assumes "(k, g) \<in> set (foldl (\<lambda>byTopic s.
              case topicId s of
                None \<Rightarrow> byTopic
              | Some t \<Rightarrow> if t \<noteq> [] then pushGroup t s byTopic else byTopic) acc summaries)"
      and "x \<in> set g"
  shows "(x \<in> set summaries \<and> topicId x = Some k \<and> k \<noteq> []) \<or> (\<exists>g0. (k, g0) \<in> set acc \<and> x \<in> set g0)"
  using assms
proof (induction summaries arbitrary: acc)
  case Nil
  then show ?case by auto
next
  case (Cons s rest)
  let ?acc' = "case topicId s of None \<Rightarrow> acc | Some t \<Rightarrow> if t \<noteq> [] then pushGroup t s acc else acc"
  from Cons.prems have "(k, g) \<in> set (foldl (\<lambda>byTopic s.
              case topicId s of
                None \<Rightarrow> byTopic
              | Some t \<Rightarrow> if t \<noteq> [] then pushGroup t s byTopic else byTopic) ?acc' rest)"
    by simp
  from Cons.IH[OF this Cons.prems(2)]
  consider "x \<in> set rest \<and> topicId x = Some k \<and> k \<noteq> []"
    | g0 where "(k, g0) \<in> set ?acc'" "x \<in> set g0"
    by blast
  then show ?case
  proof cases
    case 1
    then show ?thesis by simp
  next
    case 2
    show ?thesis
    proof (cases "topicId s")
      case None
      with 2 show ?thesis by auto
    next
      case (Some t)
      show ?thesis
      proof (cases "t = []")
        case True
        with 2 Some show ?thesis by auto
      next
        case False
        with 2 Some have "(k, g0) \<in> set (pushGroup t s acc)" by simp
        from pushGroup_members[OF this 2(2)] Some False show ?thesis by auto
      qed
    qed
  qed
qed

lemma groupByTopic_members:
  assumes "(k, g) \<in> set (groupByTopic summaries)" and "x \<in> set g"
  shows "x \<in> set summaries \<and> topicId x = Some k \<and> k \<noteq> []"
  using groupByTopic_fold_members[of k g "[]" summaries x] assms
  by (simp add: groupByTopic_def)

lemma orderedPairs_members:
  assumes "(a, b) \<in> set (orderedPairs xs)"
  shows "a \<in> set xs \<and> b \<in> set xs"
  using assms by (induction xs) auto

lemma dedupe_subset: "set (dedupe seen cs) \<subseteq> set cs"
  by (induction cs arbitrary: seen) auto

lemma pairCandidates_ids:
  assumes "c \<in> set (pairCandidates older newer)"
  shows "olderSummaryId c = sid older \<and> newerSummaryId c = sid newer
       \<and> olderTopicId c = topicId older \<and> newerTopicId c = topicId newer"
  using assms by (auto simp: pairCandidates_def Let_def)

lemma sorted_groups_members:
  assumes "(k, g) \<in> set (map (\<lambda>entry. (fst entry, stableSort timeLess (snd entry))) (groupByTopic summaries))"
      and "x \<in> set g"
  shows "x \<in> set summaries \<and> hasTopic x"
proof -
  from assms(1) obtain g0 where g0: "(k, g0) \<in> set (groupByTopic summaries)" "g = stableSort timeLess g0"
    by auto
  with assms(2) have "x \<in> set g0" by (simp add: set_stableSort)
  from groupByTopic_members[OF g0(1) this] show ?thesis
    by (simp add: hasTopic_def)
qed

lemma intraTopic_sources:
  assumes "c \<in> set (intraTopic byTopic)"
  shows "\<exists>k g older newer. (k, g) \<in> set byTopic \<and> older \<in> set g \<and> newer \<in> set g
           \<and> c \<in> set (pairCandidates older newer)"
proof -
  from assms obtain entry pair where e: "entry \<in> set byTopic" "pair \<in> set (orderedPairs (snd entry))"
      "c \<in> set (pairCandidates (fst pair) (snd pair))"
    by (auto simp: intraTopic_def)
  from e(2) have "fst pair \<in> set (snd entry) \<and> snd pair \<in> set (snd entry)"
    using orderedPairs_members[of "fst pair" "snd pair" "snd entry"] by simp
  with e(1,3) have "(fst entry, snd entry) \<in> set byTopic \<and> fst pair \<in> set (snd entry)
      \<and> snd pair \<in> set (snd entry) \<and> c \<in> set (pairCandidates (fst pair) (snd pair))"
    by simp
  then show ?thesis by blast
qed

lemma crossTopic_sources:
  assumes "c \<in> set (crossTopic tmap byTopic)"
  shows "\<exists>kA gA kB gB older newer. (kA, gA) \<in> set byTopic \<and> (kB, gB) \<in> set byTopic
           \<and> older \<in> set gA \<union> set gB \<and> newer \<in> set gA \<union> set gB
           \<and> c \<in> set (pairCandidates older newer)"
proof -
  from assms obtain ab sA sB where ab: "ab \<in> set (orderedPairs byTopic)"
      "sA \<in> set (snd (fst ab))" "sB \<in> set (snd (snd ab))" "c \<in> set (crossPair sA sB)"
    by (auto simp: crossTopic_def split: option.splits if_splits)
  from ab(1) have m: "fst ab \<in> set byTopic \<and> snd ab \<in> set byTopic"
    using orderedPairs_members[of "fst ab" "snd ab" byTopic] by simp
  from ab(4) have "c \<in> set (pairCandidates sA sB) \<or> c \<in> set (pairCandidates sB sA)"
    by (auto simp: crossPair_def Let_def split: if_splits)
  with ab(2,3) m have "(fst (fst ab), snd (fst ab)) \<in> set byTopic \<and> (fst (snd ab), snd (snd ab)) \<in> set byTopic
      \<and> (\<exists>older newer. older \<in> set (snd (fst ab)) \<union> set (snd (snd ab))
            \<and> newer \<in> set (snd (fst ab)) \<union> set (snd (snd ab)) \<and> c \<in> set (pairCandidates older newer))"
    by auto
  then show ?thesis by blast
qed

lemma findCandidateConflicts_sources:
  assumes "c \<in> set (findCandidateConflicts (Some (summaries, topics)))"
  shows "\<exists>older newer. older \<in> set summaries \<and> hasTopic older \<and> newer \<in> set summaries \<and> hasTopic newer
           \<and> c \<in> set (pairCandidates older newer)"
proof -
  let ?byTopic = "map (\<lambda>entry. (fst entry, stableSort timeLess (snd entry))) (groupByTopic summaries)"
  from assms have "c \<in> set (dedupe [] (intraTopic ?byTopic @ crossTopic (topicMap topics) ?byTopic))"
    by (simp add: findCandidateConflicts_def Let_def set_stableSort split: if_splits)
  then have "c \<in> set (intraTopic ?byTopic) \<or> c \<in> set (crossTopic (topicMap topics) ?byTopic)"
    using dedupe_subset by fastforce
  then show ?thesis
  proof
    assume "c \<in> set (intraTopic ?byTopic)"
    from intraTopic_sources[OF this] obtain k g older newer
      where h: "(k, g) \<in> set ?byTopic" "older \<in> set g" "newer \<in> set g" "c \<in> set (pairCandidates older newer)"
      by blast
    from sorted_groups_members[OF h(1) h(2)] sorted_groups_members[OF h(1) h(3)] h(4)
    show ?thesis by blast
  next
    assume "c \<in> set (crossTopic (topicMap topics) ?byTopic)"
    from crossTopic_sources[OF this] obtain kA gA kB gB older newer
      where h: "(kA, gA) \<in> set ?byTopic" "(kB, gB) \<in> set ?byTopic"
        "older \<in> set gA \<union> set gB" "newer \<in> set gA \<union> set gB" "c \<in> set (pairCandidates older newer)"
      by blast
    have "older \<in> set summaries \<and> hasTopic older"
      using h(3) sorted_groups_members[OF h(1)] sorted_groups_members[OF h(2)] by blast
    moreover have "newer \<in> set summaries \<and> hasTopic newer"
      using h(4) sorted_groups_members[OF h(1)] sorted_groups_members[OF h(2)] by blast
    ultimately show ?thesis using h(5) by blast
  qed
qed


subsection \<open>The small knowledge base, evaluated\<close>

lemma ex_compareSummaryLevel:
  "compareSummaryLevel exOlder exNewer =
     [\<lparr>f_olderContent = ''Summary '' @ dq @ ''A'' @ dq @ '' discusses redis'',
       f_newerContent = ''Summary '' @ dq @ ''B'' @ dq @ '' suggests: switch redis to kafka'',
       f_olderContentType = SummaryLevel, f_newerContentType = SummaryLevel,
       f_signals = [''summary_level_tech_switch: '' @ dq @ ''switch redis to kafka'' @ dq
                    @ '' contradicts older knowledge about redis''],
       score = 0.3\<rparr>]"
  by code_simp

lemma ex_fields:
  "sid exOlder = ''s1''" "sid exNewer = ''s2''"
  "topicId exOlder = Some ''t1''" "topicId exNewer = Some ''t1''"
  "createdAt exOlder = Some 1000" "createdAt exNewer = Some 2000"
  "tags exOlder = []" "tags exNewer = []"
  by (simp_all add: exOlder_def exNewer_def)

lemma ex_pairCandidates: "pairCandidates exOlder exNewer = [exItem, exWhole]"
  by (simp add: pairCandidates_def Let_def ex_compareDecisions ex_compareSummaryLevel ex_fields
        HEURISTIC_SCORE_THRESHOLD_def exItem_def exWhole_def)

lemma ex_keys_differ: "dedupKey exItem \<noteq> dedupKey exWhole" "dedupKey exWhole \<noteq> dedupKey exItem"
  by (simp_all add: dedupKey_def exItem_def exWhole_def)

lemma ex_scores: "heuristicScore exItem = 0.47" "heuristicScore exWhole = 0.3"
  by (simp_all add: exItem_def exWhole_def)

lemma ex_groupByTopic: "groupByTopic [exOlder, exNewer] = [(''t1'', [exOlder, exNewer])]"
  by (simp add: groupByTopic_def ex_fields)

lemma ex_findCandidateConflicts:
  "findCandidateConflicts (Some ([exOlder, exNewer], [])) = [exItem, exWhole]"
  by (simp add: findCandidateConflicts_def Let_def ex_groupByTopic stableSort_def timeLess_def ex_fields
        intraTopic_def crossTopic_def ex_pairCandidates ex_keys_differ ex_scores)


lemma ex_loose_fields:
  "sid exLoose = ''s3''" "topicId exLoose = None" "createdAt exLoose = Some 3000"
  by (simp_all add: exLoose_def)

lemma ex_groupByTopic_loose: "groupByTopic [exOlder, exLoose, exNewer] = [(''t1'', [exOlder, exNewer])]"
  by (simp add: groupByTopic_def ex_fields ex_loose_fields)

lemma ex_findCandidateConflicts_loose:
  "findCandidateConflicts (Some ([exOlder, exLoose, exNewer], [])) = [exItem, exWhole]"
  by (simp add: findCandidateConflicts_def Let_def ex_groupByTopic_loose stableSort_def timeLess_def ex_fields
        intraTopic_def crossTopic_def ex_pairCandidates ex_keys_differ ex_scores)

text \<open>
  C10. Every candidate of \<open>findCandidateConflicts\<close> is built from two records of the corpus that
  both have a topic (\<open>hasTopic\<close>: present and not empty), and carries their identifiers and
  topic ids, so both topic ids are set. When identifiers are unique, a record without a
  topic is on neither side of any candidate.
\<close>

theorem candidates_have_topics:
  "\<forall>c \<in> set (findCandidateConflicts (Some (summaries, topics))).
     (\<exists>older \<in> set summaries. \<exists>newer \<in> set summaries.
         hasTopic older \<and> hasTopic newer
       \<and> olderSummaryId c = sid older \<and> newerSummaryId c = sid newer
       \<and> olderTopicId c = topicId older \<and> newerTopicId c = topicId newer)
     \<and> olderTopicId c \<noteq> None \<and> newerTopicId c \<noteq> None
     \<and> (distinct (map sid summaries) \<longrightarrow>
          (\<forall>u \<in> set (unassigned summaries). olderSummaryId c \<noteq> sid u \<and> newerSummaryId c \<noteq> sid u))"
proof
  fix c assume "c \<in> set (findCandidateConflicts (Some (summaries, topics)))"
  from findCandidateConflicts_sources[OF this] obtain older newer
    where src: "older \<in> set summaries" "hasTopic older" "newer \<in> set summaries" "hasTopic newer"
      "c \<in> set (pairCandidates older newer)"
    by blast
  note ids = pairCandidates_ids[OF src(5)]
  have first: "\<exists>older \<in> set summaries. \<exists>newer \<in> set summaries.
         hasTopic older \<and> hasTopic newer
       \<and> olderSummaryId c = sid older \<and> newerSummaryId c = sid newer
       \<and> olderTopicId c = topicId older \<and> newerTopicId c = topicId newer"
    using src ids by blast
  have topics: "olderTopicId c \<noteq> None \<and> newerTopicId c \<noteq> None"
    using src(2,4) ids by (auto simp: hasTopic_def split: option.splits)
  have loose: "distinct (map sid summaries) \<longrightarrow>
          (\<forall>u \<in> set (unassigned summaries). olderSummaryId c \<noteq> sid u \<and> newerSummaryId c \<noteq> sid u)"
  proof (intro impI ballI)
    fix u assume d: "distinct (map sid summaries)" and u: "u \<in> set (unassigned summaries)"
    from u have um: "u \<in> set summaries" and un: "\<not> hasTopic u"
      by (simp_all add: unassigned_def)
    from d have inj: "inj_on sid (set summaries)"
      by (simp add: distinct_map)
    have "sid older \<noteq> sid u"
    proof
      assume "sid older = sid u"
      with inj src(1) um have "older = u" by (auto dest: inj_onD)
      with src(2) un show False by simp
    qed
    moreover have "sid newer \<noteq> sid u"
    proof
      assume "sid newer = sid u"
      with inj src(3) um have "newer = u" by (auto dest: inj_onD)
      with src(4) un show False by simp
    qed
    ultimately show "olderSummaryId c \<noteq> sid u \<and> newerSummaryId c \<noteq> sid u"
      using ids by simp
  qed
  show "(\<exists>older \<in> set summaries. \<exists>newer \<in> set summaries.
         hasTopic older \<and> hasTopic newer
       \<and> olderSummaryId c = sid older \<and> newerSummaryId c = sid newer
       \<and> olderTopicId c = topicId older \<and> newerTopicId c = topicId newer)
     \<and> olderTopicId c \<noteq> None \<and> newerTopicId c \<noteq> None
     \<and> (distinct (map sid summaries) \<longrightarrow>
          (\<forall>u \<in> set (unassigned summaries). olderSummaryId c \<noteq> sid u \<and> newerSummaryId c \<noteq> sid u))"
    using first topics loose by blast
qed

theorem candidates_have_topics_witness:
  "findCandidateConflicts (Some ([exOlder, exLoose, exNewer], [])) = [exItem, exWhole]
   \<and> distinct (map sid [exOlder, exLoose, exNewer])
   \<and> unassigned [exOlder, exLoose, exNewer] = [exLoose]
   \<and> olderTopicId exItem \<noteq> None \<and> newerTopicId exItem \<noteq> None
   \<and> olderSummaryId exItem \<noteq> sid exLoose \<and> newerSummaryId exItem \<noteq> sid exLoose
   \<and> olderTopicId exWhole \<noteq> None \<and> newerTopicId exWhole \<noteq> None
   \<and> olderSummaryId exWhole \<noteq> sid exLoose \<and> newerSummaryId exWhole \<noteq> sid exLoose"
proof -
  have d: "distinct (map sid [exOlder, exLoose, exNewer])"
    by (simp add: ex_fields ex_loose_fields)
  have u: "unassigned [exOlder, exLoose, exNewer] = [exLoose]"
    by (simp add: unassigned_def hasTopic_def ex_fields ex_loose_fields)
  show ?thesis
    using candidates_have_topics[of "[exOlder, exLoose, exNewer]" "[]"] d u
    unfolding ex_findCandidateConflicts_loose
    by simp
qed

subsection \<open>Verification\<close>

lemma verifiedConflict_fields:
  "status (verifiedConflict e k c r p) = Open"
  "resolvedAt (verifiedConflict e k c r p) = None"
  "resolution (verifiedConflict e k c r p) = None"
  "olderSummaryId (verifiedConflict e k c r p) = olderSummaryId c"
  "newerSummaryId (verifiedConflict e k c r p) = newerSummaryId c"
  "olderContent (verifiedConflict e k c r p) = olderContent c"
  "newerContent (verifiedConflict e k c r p) = newerContent c"
  by (simp_all add: verifiedConflict_def)

lemma verifySingleCandidate_SomeD:
  assumes "verifySingleCandidate e k c = Some x"
  shows "\<exists>r p. complete e c = Resolved r \<and> content r = Parsed p \<and> truthy (isConflict p)
           \<and> \<not> jsLess (confidenceScore p) AI_CONFIDENCE_THRESHOLD \<and> x = verifiedConflict e k c r p"
proof (cases "complete e c")
  case Rejected
  with assms show ?thesis by (simp add: verifySingleCandidate_def)
next
  case (Resolved r)
  show ?thesis
  proof (cases "content r")
    case SyntaxError
    with assms Resolved show ?thesis by (simp add: verifySingleCandidate_def)
  next
    case ParsedNull
    with assms Resolved show ?thesis by (simp add: verifySingleCandidate_def)
  next
    case (Parsed p)
    with assms Resolved show ?thesis
      by (simp add: verifySingleCandidate_def split: if_splits)
  qed
qed

lemma verifySingleCandidate_Some:
  assumes "verifySingleCandidate e k c = Some x"
  shows "status x = Open \<and> resolvedAt x = None \<and> resolution x = None
       \<and> olderSummaryId x = olderSummaryId c \<and> newerSummaryId x = newerSummaryId c
       \<and> olderContent x = olderContent c \<and> newerContent x = newerContent c"
proof -
  from verifySingleCandidate_SomeD[OF assms] obtain r p where "x = verifiedConflict e k c r p"
    by blast
  then show ?thesis by (simp add: verifiedConflict_fields)
qed

lemma verifySingleCandidate_key:
  assumes "verifySingleCandidate e k c = Some x"
  shows "dedupKey x = dedupKey c"
  using verifySingleCandidate_Some[OF assms] by (simp add: dedupKey_def)

lemma verifySingleCandidate_gate:
  assumes "complete e c = Resolved r" and "content r = Parsed p"
      and "isConflict p = JBool b" and "confidenceScore p = JNum x"
  shows "(verifySingleCandidate e k c \<noteq> None) = (b \<and> x \<ge> AI_CONFIDENCE_THRESHOLD)"
  using assms by (auto simp add: verifySingleCandidate_def jsLess_def not_le)

lemma verifySingleCandidate_failure:
  assumes "complete e c = Rejected \<or> (\<exists>r. complete e c = Resolved r \<and> (content r = SyntaxError \<or> content r = ParsedNull))"
  shows "verifySingleCandidate e k c = None"
  using assms by (auto simp: verifySingleCandidate_def)

lemma heuristicConflict_fields:
  "status (heuristicConflict e k c) = Open \<and> resolvedAt (heuristicConflict e k c) = None
   \<and> resolution (heuristicConflict e k c) = None \<and> dedupKey (heuristicConflict e k c) = dedupKey c"
  by (simp add: heuristicConflict_def dedupKey_def)

lemma verifyBatch_sources:
  assumes "x \<in> set (verifyBatch e base b)"
  shows "\<exists>k c. c \<in> set (snd b) \<and> verifySingleCandidate e k c = Some x"
proof -
  from assms obtain jc where jc: "jc \<in> set (zip [0 ..< length (snd b)] (snd b))"
      "verifySingleCandidate e (base + fst b + fst jc) (snd jc) = Some x"
    by (auto simp: verifyBatch_def split: option.splits)
  from jc(1) have "snd jc \<in> set (snd b)"
    by (metis in_set_zipE prod.collapse)
  with jc(2) show ?thesis by blast
qed

lemma batches_subset:
  "b \<in> set (batches n i xs) \<Longrightarrow> set (snd b) \<subseteq> set xs"
proof (induction n i xs rule: batches.induct)
  case (1 n i xs)
  show ?case
  proof (cases "n = 0 \<or> xs = []")
    case True
    with "1.prems" show ?thesis by (subst (asm) batches.simps) simp
  next
    case False
    with "1.prems" have "b = (i, take n xs) \<or> b \<in> set (batches n (i + n) (drop n xs))"
      by (subst (asm) batches.simps) auto
    then show ?thesis
    proof
      assume "b = (i, take n xs)"
      then show ?thesis by (auto dest: in_set_takeD)
    next
      assume "b \<in> set (batches n (i + n) (drop n xs))"
      from "1.IH"[OF False this] show ?thesis by (auto dest: in_set_dropD)
    qed
  qed
qed

lemma verifyConflicts_sources:
  assumes "x \<in> set (verifyConflicts e base cs m)"
  shows "\<exists>k c. c \<in> set cs \<and> verifySingleCandidate e k c = Some x"
proof -
  from assms obtain b mc where b: "b \<in> set (batches MAX_CONCURRENT_AI_REQUESTS 0 (take mc cs))"
      "x \<in> set (verifyBatch e base b)"
    by (auto simp: verifyConflicts_def Let_def split: if_splits)
  from verifyBatch_sources[OF b(2)] obtain k c where kc: "c \<in> set (snd b)" "verifySingleCandidate e k c = Some x"
    by blast
  from batches_subset[OF b(1)] kc(1) have "c \<in> set cs"
    by (auto dest: in_set_takeD)
  with kc(2) show ?thesis by blast
qed

lemma heuristicOnly_sources:
  assumes "x \<in> set (heuristicOnly e base cs)"
  shows "\<exists>k c. c \<in> set cs \<and> x = heuristicConflict e k c"
proof -
  from assms obtain jc where jc: "jc \<in> set (zip [0 ..< length cs] cs)" "x = heuristicConflict e (base + fst jc) (snd jc)"
    by (auto simp: heuristicOnly_def)
  from jc(1) have "snd jc \<in> set cs"
    by (metis in_set_zipE prod.collapse)
  with jc(2) show ?thesis by blast
qed

lemma conflicts_saveAll: "conflicts (saveAll cs w) = conflicts w @ cs"
  by (induction cs arbitrary: w) (simp_all add: saveAll_def saveConflict_def)



lemma batches_single:
  assumes "0 < n" and "xs \<noteq> []" and "length xs \<le> n"
  shows "batches n i xs = [(i, xs)]"
proof -
  have "batches n (i + n) (drop n xs) = []"
    using assms by (subst batches.simps) simp
  with assms show ?thesis
    by (subst batches.simps) simp
qed

lemma ex_reply_no_score:
  "verifySingleCandidate exEnvNoScore k c \<noteq> None"
  "map_option m_confidenceScore (verifySingleCandidate exEnvNoScore k c) = Some JUndefined"
  by (simp_all add: verifySingleCandidate_def exEnvNoScore_def exEnv_def exReply_def jsLess_def
        verifiedConflict_def)

text \<open>
  C3 (the gate fails on a reply without a confidence). The judge's reply parses to an object
  with \<open>isConflict = true\<close> and no \<open>confidenceScore\<close>. \<^verbatim>\<open>undefined < 0.6\<close> is false, so the
  candidate passes the gate: \<open>verifySingleCandidate\<close> returns a conflict whose stored confidence
  is \<^verbatim>\<open>undefined\<close>, and \<open>verifyConflicts\<close> hands it on to be persisted.
\<close>

theorem verify_without_confidence:
  "complete exEnvNoScore exItem = exReply (JBool True) JUndefined
   \<and> toNumber JUndefined = None
   \<and> verifySingleCandidate exEnvNoScore 0 exItem \<noteq> None
   \<and> map m_confidenceScore (verifyConflicts exEnvNoScore 0 [exItem] None) = [JUndefined]"
proof -
  have reply: "complete exEnvNoScore exItem = exReply (JBool True) JUndefined"
    by (simp add: exEnvNoScore_def)
  have provider: "hasEnabledProvider exEnvNoScore"
    by (simp add: exEnvNoScore_def exEnv_def)
  have b: "batches MAX_CONCURRENT_AI_REQUESTS 0 [exItem] = [(0, [exItem])]"
    by (rule batches_single) (simp_all add: MAX_CONCURRENT_AI_REQUESTS_def)
  obtain x where x: "verifySingleCandidate exEnvNoScore 0 exItem = Some x" "m_confidenceScore x = JUndefined"
    using ex_reply_no_score[of 0 exItem] by (cases "verifySingleCandidate exEnvNoScore 0 exItem") auto
  have "verifyConflicts exEnvNoScore 0 [exItem] None = [x]"
    using provider x(1) by (simp add: verifyConflicts_def Let_def b verifyBatch_def)
  with x reply show ?thesis by simp
qed

theorem verify_without_confidence_witness:
  "length (verifyConflicts exEnvNoScore 0 [exItem] None) = 1"
proof -
  from verify_without_confidence
  have "length (map m_confidenceScore (verifyConflicts exEnvNoScore 0 [exItem] None)) = length [JUndefined]"
    by simp
  then show ?thesis by simp
qed

subsection \<open>The ledger\<close>

lemma findIndex_Some:
  "findIndex P xs = Some i \<Longrightarrow> i < length xs \<and> P (xs ! i)"
proof (induction xs arbitrary: i)
  case Nil
  then show ?case by simp
next
  case (Cons x xs)
  show ?case
  proof (cases "P x")
    case True
    with Cons.prems show ?thesis by simp
  next
    case False
    with Cons.prems obtain j where j: "findIndex P xs = Some j" "i = Suc j"
      by (auto split: option.splits)
    from Cons.IH[OF j(1)] j(2) show ?thesis by simp
  qed
qed

lemma findIndex_found:
  "x \<in> set xs \<Longrightarrow> P x \<Longrightarrow> \<exists>i. findIndex P xs = Some i"
  by (induction xs) (auto split: option.splits)

lemma findIndex_exists:
  "\<exists>x \<in> set xs. P x \<Longrightarrow> \<exists>i. findIndex P xs = Some i"
  using findIndex_found by fastforce

lemma findIndex_None:
  "findIndex P xs = None \<Longrightarrow> \<forall>x \<in> set xs. \<not> P x"
  by (induction xs) (auto split: option.splits if_splits)

lemma valid_not_empty: "res \<in> set validResolutions \<Longrightarrow> res \<noteq> []"
  by (auto simp: validResolutions_def)

lemma resolveConflict_invalid:
  assumes "res \<notin> set validResolutions"
  shows "resolveConflict e conflictId res noteText w = (None, w)"
  using assms by (simp add: resolveConflict_def)

lemma resolveConflict_valid:
  assumes "res \<in> set validResolutions" and "conflictId \<noteq> []"
      and "\<exists>c \<in> set (conflicts w). cid c = conflictId"
  shows "\<exists>i. i < length (conflicts w) \<and> cid (conflicts w ! i) = conflictId
           \<and> resolveConflict e conflictId res noteText w =
               (Some ((conflicts w ! i)\<lparr>status := ResolvedStatus, resolution := Some res,
                                         resolutionNote := Some noteText, resolvedAt := Some (now e)\<rparr>),
                w\<lparr>conflicts := (conflicts w)[i := (conflicts w ! i)\<lparr>status := ResolvedStatus,
                                         resolution := Some res, resolutionNote := Some noteText,
                                         resolvedAt := Some (now e)\<rparr>]\<rparr>)"
proof -
  from assms(3) obtain i where i: "findIndex (\<lambda>c. cid c = conflictId) (conflicts w) = Some i"
    using findIndex_exists[of "conflicts w" "\<lambda>c. cid c = conflictId"] by blast
  from findIndex_Some[OF i] have "i < length (conflicts w)" "cid (conflicts w ! i) = conflictId"
    by simp_all
  moreover have "resolveConflict e conflictId res noteText w =
               (Some ((conflicts w ! i)\<lparr>status := ResolvedStatus, resolution := Some res,
                                         resolutionNote := Some noteText, resolvedAt := Some (now e)\<rparr>),
                w\<lparr>conflicts := (conflicts w)[i := (conflicts w ! i)\<lparr>status := ResolvedStatus,
                                         resolution := Some res, resolutionNote := Some noteText,
                                         resolvedAt := Some (now e)\<rparr>]\<rparr>)"
    using assms(1,2) valid_not_empty[OF assms(1)] i
    by (simp add: resolveConflict_def updateConflict_def Let_def)
  ultimately show ?thesis by blast
qed


text \<open>
  C9. \<open>resolveConflict\<close> with a resolution outside the four valid ones returns \<^verbatim>\<open>null\<close> and leaves
  the store as it was. With a valid resolution and the (non-empty) identifier of a stored
  conflict it replaces that conflict by a copy with \<open>status = resolved\<close>, the resolution, the
  note and \<open>resolvedAt\<close> set to the current time, and returns the copy.
\<close>

theorem resolveConflict_spec:
  "(res \<notin> set validResolutions \<longrightarrow> resolveConflict e conflictId res noteText w = (None, w))
   \<and> (res \<in> set validResolutions \<and> conflictId \<noteq> [] \<and> (\<exists>c \<in> set (conflicts w). cid c = conflictId) \<longrightarrow>
        (\<exists>i c'. i < length (conflicts w) \<and> cid (conflicts w ! i) = conflictId
           \<and> resolveConflict e conflictId res noteText w = (Some c', w\<lparr>conflicts := (conflicts w)[i := c']\<rparr>)
           \<and> c' = (conflicts w ! i)\<lparr>status := ResolvedStatus, resolution := Some res,
                                     resolutionNote := Some noteText, resolvedAt := Some (now e)\<rparr>
           \<and> status c' = ResolvedStatus \<and> resolution c' = Some res \<and> resolvedAt c' = Some (now e)))"
proof (intro conjI impI)
  assume "res \<notin> set validResolutions"
  then show "resolveConflict e conflictId res noteText w = (None, w)"
    by (rule resolveConflict_invalid)
next
  assume h: "res \<in> set validResolutions \<and> conflictId \<noteq> [] \<and> (\<exists>c \<in> set (conflicts w). cid c = conflictId)"
  then obtain i where i: "i < length (conflicts w)" "cid (conflicts w ! i) = conflictId"
     "resolveConflict e conflictId res noteText w =
               (Some ((conflicts w ! i)\<lparr>status := ResolvedStatus, resolution := Some res,
                                         resolutionNote := Some noteText, resolvedAt := Some (now e)\<rparr>),
                w\<lparr>conflicts := (conflicts w)[i := (conflicts w ! i)\<lparr>status := ResolvedStatus,
                                         resolution := Some res, resolutionNote := Some noteText,
                                         resolvedAt := Some (now e)\<rparr>]\<rparr>)"
    using resolveConflict_valid[of res conflictId w e noteText] by blast
  define c' where "c' = (conflicts w ! i)\<lparr>status := ResolvedStatus, resolution := Some res,
                                     resolutionNote := Some noteText, resolvedAt := Some (now e)\<rparr>"
  have "status c' = ResolvedStatus \<and> resolution c' = Some res \<and> resolvedAt c' = Some (now e)"
    by (simp add: c'_def)
  with i c'_def show "\<exists>i c'. i < length (conflicts w) \<and> cid (conflicts w ! i) = conflictId
           \<and> resolveConflict e conflictId res noteText w = (Some c', w\<lparr>conflicts := (conflicts w)[i := c']\<rparr>)
           \<and> c' = (conflicts w ! i)\<lparr>status := ResolvedStatus, resolution := Some res,
                                     resolutionNote := Some noteText, resolvedAt := Some (now e)\<rparr>
           \<and> status c' = ResolvedStatus \<and> resolution c' = Some res \<and> resolvedAt c' = Some (now e)"
    by blast
qed

lemma ex_accepted_id: "cid (exAccepted 0 c) = ''c''"
  by (simp add: exAccepted_def)

theorem resolveConflict_spec_witness:
  "resolveConflict exEnv ''c'' ''bogus_value'' [] \<lparr>conflicts = [exAccepted 0 exItem], drawn = 1\<rparr>
     = (None, \<lparr>conflicts = [exAccepted 0 exItem], drawn = 1\<rparr>)
   \<and> resolveConflict exEnv ''c'' ''keep_newer'' ''n'' \<lparr>conflicts = [exAccepted 0 exItem], drawn = 1\<rparr>
     = (Some ((exAccepted 0 exItem)\<lparr>status := ResolvedStatus, resolution := Some ''keep_newer'',
                 resolutionNote := Some ''n'', resolvedAt := Some (now exEnv)\<rparr>),
        \<lparr>conflicts = [(exAccepted 0 exItem)\<lparr>status := ResolvedStatus, resolution := Some ''keep_newer'',
                 resolutionNote := Some ''n'', resolvedAt := Some (now exEnv)\<rparr>], drawn = 1\<rparr>)"
proof -
  let ?w = "\<lparr>conflicts = [exAccepted 0 exItem], drawn = 1\<rparr>"
  have bogus: "''bogus_value'' \<notin> set validResolutions"
    by (simp add: validResolutions_def)
  have valid: "''keep_newer'' \<in> set validResolutions \<and> ''c'' \<noteq> [] \<and> (\<exists>c \<in> set (conflicts ?w). cid c = ''c'')"
    by (simp add: validResolutions_def ex_accepted_id)
  from resolveConflict_spec[of "''bogus_value''" exEnv "''c''" "[]" "?w"] bogus
  have first: "resolveConflict exEnv ''c'' ''bogus_value'' [] ?w = (None, ?w)"
    by blast
  from resolveConflict_spec[of "''keep_newer''" exEnv "''c''" "''n''" "?w"] valid
  obtain i c' where i: "i < length (conflicts ?w)"
      "resolveConflict exEnv ''c'' ''keep_newer'' ''n'' ?w = (Some c', ?w\<lparr>conflicts := (conflicts ?w)[i := c']\<rparr>)"
      "c' = (conflicts ?w ! i)\<lparr>status := ResolvedStatus, resolution := Some ''keep_newer'',
                                     resolutionNote := Some ''n'', resolvedAt := Some (now exEnv)\<rparr>"
    by blast
  from i(1) have "i = 0" by simp
  with i(2,3) have second: "resolveConflict exEnv ''c'' ''keep_newer'' ''n'' ?w
     = (Some ((exAccepted 0 exItem)\<lparr>status := ResolvedStatus, resolution := Some ''keep_newer'',
                 resolutionNote := Some ''n'', resolvedAt := Some (now exEnv)\<rparr>),
        \<lparr>conflicts = [(exAccepted 0 exItem)\<lparr>status := ResolvedStatus, resolution := Some ''keep_newer'',
                 resolutionNote := Some ''n'', resolvedAt := Some (now exEnv)\<rparr>], drawn = 1\<rparr>)"
    by simp
  from first second show ?thesis by (rule conjI)
qed

subsection \<open>The invariant of stored conflicts\<close>

lemma verifyConflicts_open:
  assumes "x \<in> set (verifyConflicts e base cs m)"
  shows "status x = Open \<and> resolvedAt x = None \<and> resolution x = None"
proof -
  from verifyConflicts_sources[OF assms] obtain k c where "verifySingleCandidate e k c = Some x"
    by blast
  from verifySingleCandidate_Some[OF this] show ?thesis by simp
qed

lemma heuristicOnly_open:
  assumes "x \<in> set (heuristicOnly e base cs)"
  shows "status x = Open \<and> resolvedAt x = None \<and> resolution x = None"
proof -
  from heuristicOnly_sources[OF assms] obtain k c where "x = heuristicConflict e k c"
    by blast
  then show ?thesis by (simp add: heuristicConflict_fields)
qed

lemma saveAll_invariant:
  assumes "\<forall>c \<in> set (conflicts w). openInvariant c" and "\<forall>c \<in> set cs. openInvariant c"
  shows "\<forall>c \<in> set (conflicts (saveAll cs (w\<lparr>drawn := d\<rparr>))). openInvariant c"
  using assms by (auto simp: conflicts_saveAll)

lemma updateConflict_invariant:
  assumes "\<forall>c \<in> set (conflicts w). openInvariant c" and "\<And>c. openInvariant (updates c)"
  shows "\<forall>c \<in> set (conflicts (snd (updateConflict conflictId updates w))). openInvariant c"
proof (cases "findIndex (\<lambda>c. cid c = conflictId) (conflicts w)")
  case None
  with assms(1) show ?thesis by (simp add: updateConflict_def)
next
  case (Some i)
  have "set ((conflicts w)[i := updates (conflicts w ! i)]) \<subseteq> insert (updates (conflicts w ! i)) (set (conflicts w))"
    by (rule set_update_subset_insert)
  with assms Some show ?thesis
    by (auto simp: updateConflict_def Let_def)
qed

lemma resolveConflict_invariant:
  assumes "\<forall>c \<in> set (conflicts w). openInvariant c"
  shows "\<forall>c \<in> set (conflicts (snd (resolveConflict e conflictId res noteText w))). openInvariant c"
proof -
  have "\<forall>c \<in> set (conflicts (snd (updateConflict conflictId
           (\<lambda>c. c\<lparr>status := ResolvedStatus, resolution := Some res,
                  resolutionNote := Some noteText, resolvedAt := Some (now e)\<rparr>) w))). openInvariant c"
    by (rule updateConflict_invariant[OF assms]) (simp add: openInvariant_def)
  with assms show ?thesis
    by (simp add: resolveConflict_def)
qed

lemma dismissConflict_invariant:
  assumes "\<forall>c \<in> set (conflicts w). openInvariant c"
  shows "\<forall>c \<in> set (conflicts (snd (dismissConflict e conflictId w))). openInvariant c"
proof -
  have "\<forall>c \<in> set (conflicts (snd (updateConflict conflictId
           (\<lambda>c. c\<lparr>status := Dismissed, resolvedAt := Some (now e)\<rparr>) w))). openInvariant c"
    by (rule updateConflict_invariant[OF assms]) (simp add: openInvariant_def)
  with assms show ?thesis
    by (simp add: dismissConflict_def)
qed

lemma updateConflict_result:
  assumes "fst (updateConflict conflictId updates w) = Some y"
  shows "\<exists>c. y = updates c"
  using assms by (auto simp: updateConflict_def Let_def split: option.splits)

lemma resolveConflict_result:
  assumes "fst (resolveConflict e conflictId res noteText w) = Some y"
  shows "status y = ResolvedStatus \<and> resolution y = Some res \<and> resolvedAt y = Some (now e)"
proof -
  from assms have "fst (updateConflict conflictId
             (\<lambda>c. c\<lparr>status := ResolvedStatus, resolution := Some res,
                    resolutionNote := Some noteText, resolvedAt := Some (now e)\<rparr>) w) = Some y"
    by (simp add: resolveConflict_def split: if_splits)
  from updateConflict_result[OF this] obtain c
    where "y = c\<lparr>status := ResolvedStatus, resolution := Some res,
                    resolutionNote := Some noteText, resolvedAt := Some (now e)\<rparr>"
    by blast
  then show ?thesis by simp
qed

lemma dismissConflict_result:
  assumes "fst (dismissConflict e conflictId w) = Some y"
  shows "status y = Dismissed \<and> resolvedAt y = Some (now e)"
proof -
  from assms have "fst (updateConflict conflictId
             (\<lambda>c. c\<lparr>status := Dismissed, resolvedAt := Some (now e)\<rparr>) w) = Some y"
    by (simp add: dismissConflict_def split: if_splits)
  from updateConflict_result[OF this] obtain c
    where "y = c\<lparr>status := Dismissed, resolvedAt := Some (now e)\<rparr>"
    by blast
  then show ?thesis by simp
qed

lemma checkNewSummary_world:
  "checkNewSummary e summary useAI w = ([], w)
   \<or> (\<exists>cs d. checkNewSummary e summary useAI w = (cs, saveAll cs (w\<lparr>drawn := d\<rparr>))
          \<and> (\<forall>c \<in> set cs. status c = Open \<and> resolvedAt c = None \<and> resolution c = None))"
proof -
  have created: "\<forall>c \<in> set (if useAI \<and> (if useAI then hasEnabledProvider e else False)
                          then verifyConflicts e (drawn w) cands (Some 10)
                          else heuristicOnly e (drawn w) cands).
                    status c = Open \<and> resolvedAt c = None \<and> resolution c = None" for cands
    using verifyConflicts_open heuristicOnly_open by auto
  show ?thesis
  proof (cases "dbGetAll e")
    case None
    then show ?thesis by (simp add: checkNewSummary_def)
  next
    case (Some db)
    obtain existingSummaries topics where db: "db = (existingSummaries, topics)" by (cases db)
    show ?thesis
      using Some db created
      by (simp add: checkNewSummary_def Let_def) blast
  qed
qed

lemma runFullScan_world:
  "(scanConflicts (fst (runFullScan e options w)) = [] \<and> snd (runFullScan e options w) = w)
   \<or> (\<exists>cs d. scanConflicts (fst (runFullScan e options w)) = cs
          \<and> snd (runFullScan e options w) = saveAll cs (w\<lparr>drawn := d\<rparr>)
          \<and> (\<forall>c \<in> set cs. status c = Open \<and> resolvedAt c = None \<and> resolution c = None))"
proof -
  have created: "\<forall>c \<in> set (if hasEnabledProvider e
                          then verifyConflicts e (drawn w) cands m
                          else heuristicOnly e (drawn w) cands).
                    status c = Open \<and> resolvedAt c = None \<and> resolution c = None" for cands m
    using verifyConflicts_open heuristicOnly_open by auto
  show ?thesis
    using created by (simp add: runFullScan_def Let_def) blast
qed

lemma checkNewSummary_returned:
  assumes "x \<in> set (fst (checkNewSummary e summary useAI w))"
  shows "status x = Open \<and> resolvedAt x = None \<and> resolution x = None"
  using checkNewSummary_world[of e summary useAI w] assms by auto

lemma runFullScan_returned:
  assumes "x \<in> set (scanConflicts (fst (runFullScan e options w)))"
  shows "status x = Open \<and> resolvedAt x = None \<and> resolution x = None"
  using runFullScan_world[of e options w] assms by auto

lemma reachable_invariant:
  "reachable w \<Longrightarrow> \<forall>c \<in> set (conflicts w). openInvariant c"
proof (induction rule: reachable.induct)
  case initial
  then show ?case by simp
next
  case (check w e summary useAI)
  from checkNewSummary_world[of e summary useAI w] show ?case
  proof
    assume "checkNewSummary e summary useAI w = ([], w)"
    with check.IH show ?thesis by simp
  next
    assume "\<exists>cs d. checkNewSummary e summary useAI w = (cs, saveAll cs (w\<lparr>drawn := d\<rparr>))
          \<and> (\<forall>c \<in> set cs. status c = Open \<and> resolvedAt c = None \<and> resolution c = None)"
    then obtain cs d where h: "checkNewSummary e summary useAI w = (cs, saveAll cs (w\<lparr>drawn := d\<rparr>))"
        "\<forall>c \<in> set cs. status c = Open \<and> resolvedAt c = None \<and> resolution c = None"
      by blast
    from h(2) have "\<forall>c \<in> set cs. openInvariant c" by (simp add: openInvariant_def)
    from saveAll_invariant[OF check.IH this] h(1) show ?thesis by simp
  qed
next
  case (scan w e options)
  from runFullScan_world[of e options w] show ?case
  proof
    assume "scanConflicts (fst (runFullScan e options w)) = [] \<and> snd (runFullScan e options w) = w"
    with scan.IH show ?thesis by simp
  next
    assume "\<exists>cs d. scanConflicts (fst (runFullScan e options w)) = cs
          \<and> snd (runFullScan e options w) = saveAll cs (w\<lparr>drawn := d\<rparr>)
          \<and> (\<forall>c \<in> set cs. status c = Open \<and> resolvedAt c = None \<and> resolution c = None)"
    then obtain cs d where h: "snd (runFullScan e options w) = saveAll cs (w\<lparr>drawn := d\<rparr>)"
        "\<forall>c \<in> set cs. status c = Open \<and> resolvedAt c = None \<and> resolution c = None"
      by blast
    from h(2) have "\<forall>c \<in> set cs. openInvariant c" by (simp add: openInvariant_def)
    from saveAll_invariant[OF scan.IH this] h(1) show ?thesis by simp
  qed
next
  case (resolve w e conflictId res noteText)
  then show ?case by (intro resolveConflict_invariant)
next
  case (dismiss w e conflictId)
  then show ?case by (intro dismissConflict_invariant)
qed

subsection \<open>The small knowledge base, scanned\<close>

lemma ex_env:
  "dbGetAll exEnv = Some ([exOlder, exNewer], [])" "hasEnabledProvider exEnv" "ledgerReadable exEnv"
  by (simp_all add: exEnv_def)

lemma ex_verify: "verifySingleCandidate exEnv k c = Some (exAccepted k c)"
  by (simp add: verifySingleCandidate_def exEnv_def exReply_def jsLess_def AI_CONFIDENCE_THRESHOLD_def
        verifiedConflict_def exAccepted_def orElse_def)


lemma ex_verify_one:
  "verifyConflicts exEnv base (c # cs) (Some (Suc 0)) = [exAccepted base c]"
proof -
  have b: "batches MAX_CONCURRENT_AI_REQUESTS 0 [c] = [(0, [c])]"
    by (rule batches_single) (simp_all add: MAX_CONCURRENT_AI_REQUESTS_def)
  show ?thesis
    by (simp add: verifyConflicts_def Let_def ex_env b verifyBatch_def ex_verify)
qed

lemma ex_run1:
  "runFullScan exEnv exOptions emptyWorld =
     (\<lparr>found = 2, verified = 1, scanConflicts = [exAccepted 0 exItem]\<rparr>,
      \<lparr>conflicts = [exAccepted 0 exItem], drawn = 2\<rparr>)"
  by (simp add: runFullScan_def Let_def exOptions_def emptyWorld_def ex_env ex_findCandidateConflicts
        HEURISTIC_SCORE_THRESHOLD_def ex_scores getAllConflicts_def ex_verify_one
        saveAll_def saveConflict_def)



text \<open>
  C8. In every store reachable from the empty one by \<open>checkNewSummary\<close>, \<open>runFullScan\<close>,
  \<open>resolveConflict\<close> and \<open>dismissConflict\<close>, an open conflict has neither \<open>resolvedAt\<close> nor
  \<open>resolution\<close>. The conflicts that verification and the heuristic-only branches create, and
  so the ones the two scanning operations return, are open with both fields empty; the
  conflict that \<open>resolveConflict\<close> or \<open>dismissConflict\<close> returns is no longer open.
\<close>

theorem open_conflicts_unresolved:
  "(reachable w \<longrightarrow> (\<forall>c \<in> set (conflicts w). status c = Open \<longrightarrow> resolvedAt c = None \<and> resolution c = None))
   \<and> (\<forall>x \<in> set (verifyConflicts e base cs m). status x = Open \<and> resolvedAt x = None \<and> resolution x = None)
   \<and> (\<forall>x \<in> set (heuristicOnly e base cs). status x = Open \<and> resolvedAt x = None \<and> resolution x = None)
   \<and> (\<forall>x \<in> set (fst (checkNewSummary e summary useAI w')). status x = Open \<and> resolvedAt x = None \<and> resolution x = None)
   \<and> (\<forall>x \<in> set (scanConflicts (fst (runFullScan e options w'))). status x = Open \<and> resolvedAt x = None \<and> resolution x = None)
   \<and> (\<forall>y. fst (resolveConflict e conflictId res noteText w') = Some y \<longrightarrow>
          status y = ResolvedStatus \<and> resolution y = Some res \<and> resolvedAt y = Some (now e))
   \<and> (\<forall>y. fst (dismissConflict e conflictId w') = Some y \<longrightarrow>
          status y = Dismissed \<and> resolvedAt y = Some (now e))"
proof -
  have stored: "reachable w \<longrightarrow> (\<forall>c \<in> set (conflicts w). status c = Open \<longrightarrow> resolvedAt c = None \<and> resolution c = None)"
    using reachable_invariant[of w] by (simp add: openInvariant_def)
  have ai: "\<forall>x \<in> set (verifyConflicts e base cs m). status x = Open \<and> resolvedAt x = None \<and> resolution x = None"
    using verifyConflicts_open by blast
  have heur: "\<forall>x \<in> set (heuristicOnly e base cs). status x = Open \<and> resolvedAt x = None \<and> resolution x = None"
    using heuristicOnly_open by blast
  have chk: "\<forall>x \<in> set (fst (checkNewSummary e summary useAI w')). status x = Open \<and> resolvedAt x = None \<and> resolution x = None"
    using checkNewSummary_returned by blast
  have scn: "\<forall>x \<in> set (scanConflicts (fst (runFullScan e options w'))). status x = Open \<and> resolvedAt x = None \<and> resolution x = None"
    using runFullScan_returned by blast
  have rsv: "\<forall>y. fst (resolveConflict e conflictId res noteText w') = Some y \<longrightarrow>
          status y = ResolvedStatus \<and> resolution y = Some res \<and> resolvedAt y = Some (now e)"
    using resolveConflict_result by blast
  have dsm: "\<forall>y. fst (dismissConflict e conflictId w') = Some y \<longrightarrow>
          status y = Dismissed \<and> resolvedAt y = Some (now e)"
    using dismissConflict_result by blast
  show ?thesis
    using stored ai heur chk scn rsv dsm by (intro conjI)
qed

theorem open_conflicts_unresolved_witness:
  "reachable \<lparr>conflicts = [exAccepted 0 exItem], drawn = 2\<rparr>
   \<and> status (exAccepted 0 exItem) = Open
   \<and> resolvedAt (exAccepted 0 exItem) = None
   \<and> resolution (exAccepted 0 exItem) = None"
proof -
  have "reachable (snd (runFullScan exEnv exOptions \<lparr>conflicts = [], drawn = 0\<rparr>))"
    by (rule reachable.scan[OF reachable.initial])
  then have r: "reachable \<lparr>conflicts = [exAccepted 0 exItem], drawn = 2\<rparr>"
    using ex_run1 by (simp add: emptyWorld_def)
  from open_conflicts_unresolved[of "\<lparr>conflicts = [exAccepted 0 exItem], drawn = 2\<rparr>"] r
  have "\<forall>c \<in> set (conflicts \<lparr>conflicts = [exAccepted 0 exItem], drawn = 2\<rparr>).
          status c = Open \<longrightarrow> resolvedAt c = None \<and> resolution c = None"
    by blast
  moreover have "status (exAccepted 0 exItem) = Open"
    by (simp add: exAccepted_def)
  ultimately show ?thesis using r by simp
qed

subsection \<open>One switch per pattern\<close>














subsection \<open>Roles in the single-record check\<close>

lemma ex_comparables: "comparables exOlder [exOlder, exNewer] = [exNewer]"
  by (simp add: comparables_def ex_fields hasTopic_def)

lemma ex_checkPair: "checkPair exOlder exNewer = pairCandidates exOlder exNewer"
  by (simp add: checkPair_def timeLe_def ex_fields Let_def)

lemma ex_verify_two:
  "verifyConflicts exEnv base [c, d] (Some 10) = [exAccepted base c, exAccepted (Suc base) d]"
proof -
  have b: "batches MAX_CONCURRENT_AI_REQUESTS 0 [c, d] = [(0, [c, d])]"
    by (rule batches_single) (simp_all add: MAX_CONCURRENT_AI_REQUESTS_def)
  have z: "zip [0 ..< Suc (Suc 0)] [c, d] = [(0, c), (Suc 0, d)]"
    by (simp add: upt_rec)
  show ?thesis
    by (simp add: verifyConflicts_def Let_def ex_env b verifyBatch_def z ex_verify del: upt.simps upt_Suc)
qed

lemma ex_check:
  "fst (checkNewSummary exEnv exOlder True emptyWorld) = [exAccepted 0 exItem, exAccepted 1 exWhole]"
  by (simp add: checkNewSummary_def Let_def ex_env ex_fields ex_comparables ex_checkPair ex_pairCandidates
        ex_keys_differ ex_verify_two emptyWorld_def)

lemma checkPair_by_time:
  assumes "createdAt summary = Some ts" and "createdAt existing = Some te"
  shows "checkPair summary existing =
           (if te \<le> ts then pairCandidates existing summary else pairCandidates summary existing)"
  using assms by (simp add: checkPair_def timeLe_def Let_def)

lemma checkPair_unparseable:
  assumes "createdAt summary = None \<or> createdAt existing = None"
  shows "checkPair summary existing = pairCandidates summary existing"
  using assms by (auto simp: checkPair_def timeLe_def Let_def split: option.splits)

text \<open>
  C2 (the check orders the pair by time). The new record \<open>exOlder\<close> (created at 1000) is
  checked against the stored record \<open>exNewer\<close> (created at 2000) of the same topic. The
  comparison \<^verbatim>\<open>existingTime <= newSummaryTime\<close> is false, so the matchers receive the new record
  as the older side, and both conflicts that the check returns name it as their older
  record. The same happens when the stored record's date does not parse. The comment that
  precedes the comparison in the source reads \<^verbatim>\<open>The new summary is always the "newer" one\<close>.
\<close>

theorem checkNewSummary_new_record_older:
  "createdAt exOlder = Some 1000 \<and> createdAt exNewer = Some 2000
   \<and> comparables exOlder [exOlder, exNewer] = [exNewer]
   \<and> checkPair exOlder exNewer = pairCandidates exOlder exNewer
   \<and> fst (checkNewSummary exEnv exOlder True emptyWorld) = [exAccepted 0 exItem, exAccepted 1 exWhole]
   \<and> map olderSummaryId (fst (checkNewSummary exEnv exOlder True emptyWorld)) = [sid exOlder, sid exOlder]
   \<and> map newerSummaryId (fst (checkNewSummary exEnv exOlder True emptyWorld)) = [sid exNewer, sid exNewer]
   \<and> checkPair exOlder (exNewer\<lparr>createdAt := None\<rparr>) = pairCandidates exOlder (exNewer\<lparr>createdAt := None\<rparr>)"
proof -
  have ids: "map olderSummaryId [exAccepted 0 exItem, exAccepted 1 exWhole] = [sid exOlder, sid exOlder]
     \<and> map newerSummaryId [exAccepted 0 exItem, exAccepted 1 exWhole] = [sid exNewer, sid exNewer]"
    by (simp add: exAccepted_def exItem_def exWhole_def ex_fields)
  have garbled: "checkPair exOlder (exNewer\<lparr>createdAt := None\<rparr>) = pairCandidates exOlder (exNewer\<lparr>createdAt := None\<rparr>)"
    by (rule checkPair_unparseable) simp
  show ?thesis
    using ex_fields(5,6) ex_comparables ex_checkPair ex_check ids garbled by simp
qed

theorem checkNewSummary_new_record_older_witness:
  "length (fst (checkNewSummary exEnv exOlder True emptyWorld)) = 2
   \<and> hd (map olderSummaryId (fst (checkNewSummary exEnv exOlder True emptyWorld))) = ''s1''"
proof -
  from checkNewSummary_new_record_older
  have r: "fst (checkNewSummary exEnv exOlder True emptyWorld) = [exAccepted 0 exItem, exAccepted 1 exWhole]"
    and o: "map olderSummaryId (fst (checkNewSummary exEnv exOlder True emptyWorld)) = [sid exOlder, sid exOlder]"
    by blast+
  from r have "length (fst (checkNewSummary exEnv exOlder True emptyWorld)) = 2" by simp
  moreover from o have "hd (map olderSummaryId (fst (checkNewSummary exEnv exOlder True emptyWorld))) = ''s1''"
    by (simp add: ex_fields)
  ultimately show ?thesis by (rule conjI)
qed

subsection \<open>Scanning twice\<close>














lemma scan_verified_sources:
  assumes "x \<in> set (if hasEnabledProvider e then verifyConflicts e base N m else heuristicOnly e base N)"
  shows "\<exists>c \<in> set N. dedupKey x = dedupKey c"
proof (cases "hasEnabledProvider e")
  case True
  with assms have "x \<in> set (verifyConflicts e base N m)" by simp
  from verifyConflicts_sources[OF this] obtain k c where c: "c \<in> set N" "verifySingleCandidate e k c = Some x"
    by blast
  from verifySingleCandidate_key[OF c(2)] c(1) show ?thesis by blast
next
  case False
  with assms have "x \<in> set (heuristicOnly e base N)" by simp
  from heuristicOnly_sources[OF this] obtain k c where c: "c \<in> set N" "x = heuristicConflict e k c"
    by blast
  then show ?thesis using heuristicConflict_fields[of e k c] by blast
qed










lemma ex_verify_all:
  assumes "2 \<le> m"
  shows "verifyConflicts exEnv base [c, d] (Some m) = [exAccepted base c, exAccepted (Suc base) d]"
proof -
  have b: "batches MAX_CONCURRENT_AI_REQUESTS 0 [c, d] = [(0, [c, d])]"
    by (rule batches_single) (simp_all add: MAX_CONCURRENT_AI_REQUESTS_def)
  have z: "zip [0 ..< Suc (Suc 0)] [c, d] = [(0, c), (Suc 0, d)]"
    by (simp add: upt_rec)
  from assms have t: "take m [c, d] = [c, d]" by simp
  from assms have m0: "m \<noteq> 0" by simp
  show ?thesis
    by (simp add: verifyConflicts_def Let_def ex_env b verifyBatch_def z ex_verify t m0 del: upt.simps upt_Suc)
qed






text \<open>
  When the read of the ledger fails, \<open>getAllConflicts\<close> answers with the empty list, every
  candidate counts as unknown, and the scan persists the stored keys a second time.
\<close>

lemma ex_run_unreadable:
  "runFullScan exEnvUnreadable exDefaults \<lparr>conflicts = [exAccepted 0 exItem, exAccepted 1 exWhole], drawn = 2\<rparr> =
     (\<lparr>found = 2, verified = 2, scanConflicts = [exAccepted 2 exItem, exAccepted 3 exWhole]\<rparr>,
      \<lparr>conflicts = [exAccepted 0 exItem, exAccepted 1 exWhole, exAccepted 2 exItem, exAccepted 3 exWhole],
       drawn = 4\<rparr>)"
proof -
  have env: "dbGetAll exEnvUnreadable = Some ([exOlder, exNewer], [])" "hasEnabledProvider exEnvUnreadable"
       "\<not> ledgerReadable exEnvUnreadable"
    by (simp_all add: exEnvUnreadable_def exEnv_def)
  have c: "verifiedConflict (exEnv\<lparr>ledgerReadable := False\<rparr>) = verifiedConflict exEnv"
    by (intro ext) (simp add: verifiedConflict_def)
  have s: "verifySingleCandidate exEnvUnreadable = verifySingleCandidate exEnv"
    by (intro ext)
       (simp add: verifySingleCandidate_def exEnvUnreadable_def c split: judgeReply.splits parseResult.splits)
  have b: "verifyBatch exEnvUnreadable = verifyBatch exEnv"
    by (intro ext) (simp add: verifyBatch_def s)
  have v: "verifyConflicts exEnvUnreadable base [c, d] (Some 20) = verifyConflicts exEnv base [c, d] (Some 20)" for base c d
    by (simp add: verifyConflicts_def Let_def b env ex_env)
  show ?thesis
    by (simp add: runFullScan_def Let_def exDefaults_def env ex_findCandidateConflicts
          HEURISTIC_SCORE_THRESHOLD_def ex_scores getAllConflicts_def v ex_verify_all
          saveAll_def saveConflict_def)
qed


end
